theory Spec2Isabelle
  imports Complex_Main "HOL-Library.Sublist"
begin

section \<open>The detector (CheckerDetector, JavaScript)\<close>

text \<open>
  The canvas size, the rows of a circle matrix and the draws of \<^verbatim>\<open>Math.random()\<close>
  are inputs of the model.
\<close>

subsection \<open>JavaScript numbers\<close>

text \<open>
  A JavaScript number is an IEEE 754 double, here the real number it stands for. Every
  arithmetic operation returns the exact result rounded to the nearest double, a tie
  going to the even significand (\<open>fl\<close>). The doubles around \<open>x\<close> are the multiples of
  \<open>ulp x\<close>: \<open>2^(e - 52)\<close> for \<open>2^e \<le> \<bar>x\<bar> < 2^(e + 1)\<close>, and \<open>2^(-1074)\<close>
  below \<open>2^(-1022)\<close>. Overflow to infinity (from \<open>2^1024\<close> on) is left out: no number
  of the detector comes near it.
\<close>

fun bit_length :: "nat \<Rightarrow> nat" where
  "bit_length n = (if n = 0 then 0 else Suc (bit_length (n div 2)))"

definition pow2 :: "int \<Rightarrow> real" where
  "pow2 k = (if 0 \<le> k then 2 ^ nat k else 1 / 2 ^ nat (- k))"

text \<open>The exponent \<open>e\<close> of a positive number: \<open>2^e \<le> x < 2^(e + 1)\<close>.\<close>

definition expo :: "real \<Rightarrow> int" where
  "expo x =
     (if 1 \<le> x then int (bit_length (nat \<lfloor>x\<rfloor>)) - 1
      else - int (bit_length (nat (\<lceil>1 / x\<rceil> - 1))))"

text \<open>The nearest integer, a half going to the even one.\<close>

definition rhe :: "real \<Rightarrow> int" where
  "rhe y =
     (let f = \<lfloor>y\<rfloor>; d = y - of_int f
      in if d < 1 / 2 then f else if 1 / 2 < d then f + 1 else if even f then f else f + 1)"

definition ulp :: "real \<Rightarrow> real" where
  "ulp x = pow2 (max (expo \<bar>x\<bar>) (- 1022) - 52)"

definition fl :: "real \<Rightarrow> real" where
  "fl x = (if x = 0 then 0 else of_int (rhe (x / ulp x)) * ulp x)"

definition is_double :: "real \<Rightarrow> bool" where
  "is_double x = (fl x = x \<and> \<bar>x\<bar> < 2 ^ 1024)"

definition js_add :: "real \<Rightarrow> real \<Rightarrow> real" where
  "js_add a b = fl (a + b)"

definition js_mul :: "real \<Rightarrow> real \<Rightarrow> real" where
  "js_mul a b = fl (a * b)"

definition js_div :: "real \<Rightarrow> real \<Rightarrow> real" where
  "js_div a b = fl (a / b)"

subsection \<open>Board regions\<close>

datatype side = Top | Bottom

record region =
  point :: nat
  xpos :: real
  ypos :: real
  side :: side

text \<open>
  The first loop of \<^verbatim>\<open>detectBoardRegions\<close>:
  \<^verbatim>\<open>for (let i = 0; i < 12; i++) regions.push({point: i + 1, x: ..., y: ..., side: 'top'})\<close>
  with \<^verbatim>\<open>x: regionWidth * i + regionWidth / 2\<close> and \<^verbatim>\<open>y: boardHeight * 0.1\<close>. The
  literal \<^verbatim>\<open>0.1\<close> is the double nearest to one tenth.
\<close>

function top_loop :: "real \<Rightarrow> real \<Rightarrow> nat \<Rightarrow> region list \<Rightarrow> region list" where
  "top_loop regionWidth boardHeight i regions =
     (if i < 12
      then top_loop regionWidth boardHeight (i + 1)
             (regions @ [\<lparr>point = i + 1,
                           xpos = js_add (js_mul regionWidth (real i)) (js_div regionWidth 2),
                           ypos = js_mul boardHeight (fl (1 / 10)),
                           side = Top\<rparr>])
      else regions)"
  by pat_completeness auto
termination
  by (relation "measure (\<lambda>(w, h, i, rs). 12 - i)") auto

text \<open>The second loop: the bottom side, points 13 to 24.\<close>

function bottom_loop :: "real \<Rightarrow> real \<Rightarrow> nat \<Rightarrow> region list \<Rightarrow> region list" where
  "bottom_loop regionWidth boardHeight i regions =
     (if i < 12
      then bottom_loop regionWidth boardHeight (i + 1)
             (regions @ [\<lparr>point = i + 13,
                           xpos = js_add (js_mul regionWidth (real i)) (js_div regionWidth 2),
                           ypos = js_mul boardHeight (fl (9 / 10)),
                           side = Bottom\<rparr>])
      else regions)"
  by pat_completeness auto
termination
  by (relation "measure (\<lambda>(w, h, i, rs). 12 - i)") auto

definition detectBoardRegions :: "real \<Rightarrow> real \<Rightarrow> region list" where
  "detectBoardRegions boardWidth boardHeight =
     (let regionWidth = js_div boardWidth 12;
          regions = top_loop regionWidth boardHeight 0 [];
          regions = bottom_loop regionWidth boardHeight 0 regions
      in regions)"

subsection \<open>Placeholders for cube value and pip count\<close>

text \<open>\<^verbatim>\<open>detectCubeValue(x, y) { return 1; }\<close>: the arguments are ignored, whatever they are.\<close>

definition detectCubeValue :: "'a \<Rightarrow> 'b \<Rightarrow> int" where
  "detectCubeValue x y = 1"

text \<open>
  \<^verbatim>\<open>detectDicePips(centerX, centerY, diceRadius) { return Math.floor(Math.random() * 6) + 1; }\<close>.
  The first argument of the model is the value \<^verbatim>\<open>Math.random()\<close> returns in this call,
  a double in the interval from 0 (included) to 1 (excluded). The floor of a double below
  \<open>2^53\<close> and the sum of it and 1 are exact.
\<close>

definition detectDicePips :: "real \<Rightarrow> 'a \<Rightarrow> 'b \<Rightarrow> 'c \<Rightarrow> int" where
  "detectDicePips random centerX centerY diceRadius = \<lfloor>js_mul random 6\<rfloor> + 1"

subsection \<open>Dice\<close>

text \<open>
  The matrix \<^verbatim>\<open>HoughCircles\<close> fills: \<^verbatim>\<open>rows\<close> circles, stored flat in
  \<^verbatim>\<open>data32F\<close> as x, y, radius. A read past the end of a typed array is
  \<^verbatim>\<open>undefined\<close>, here \<open>None\<close>; every comparison with it is false.
\<close>

record mat =
  rows :: nat
  data32F :: "real list"

definition at32F :: "real list \<Rightarrow> nat \<Rightarrow> real option" where
  "at32F circle j = (if j < length circle then Some (circle ! j) else None)"

definition gt :: "real option \<Rightarrow> real \<Rightarrow> bool" where
  "gt a b = (case a of None \<Rightarrow> False | Some v \<Rightarrow> v > b)"

definition lt :: "real option \<Rightarrow> real \<Rightarrow> bool" where
  "lt a b = (case a of None \<Rightarrow> False | Some v \<Rightarrow> v < b)"

record die =
  die_x :: "real option"
  die_y :: "real option"
  die_radius :: "real option"
  die_pips :: int

text \<open>
  The loop of \<^verbatim>\<open>detectDice\<close> over the rows of the matrix. \<open>rnd\<close> is the sequence of
  values \<^verbatim>\<open>Math.random()\<close> returns and \<open>k\<close> counts the calls made so far: one for each
  circle that passes the test.
\<close>

function dice_loop ::
  "real \<Rightarrow> real \<Rightarrow> mat \<Rightarrow> (nat \<Rightarrow> real) \<Rightarrow> nat \<Rightarrow> nat \<Rightarrow> die list \<Rightarrow> die list" where
  "dice_loop width height diceCircles rnd i k dice =
     (if i < rows diceCircles
      then let circle = data32F diceCircles;
               x = at32F circle (i * 3);
               y = at32F circle (i * 3 + 1);
               radius = at32F circle (i * 3 + 2)
           in if gt x 0 \<and> gt y 0 \<and> lt x width \<and> lt y height \<and> lt radius 25
              then let pipCount = detectDicePips (rnd k) x y radius
                   in dice_loop width height diceCircles rnd (i + 1) (k + 1)
                        (dice @ [\<lparr>die_x = x, die_y = y, die_radius = radius, die_pips = pipCount\<rparr>])
              else dice_loop width height diceCircles rnd (i + 1) k dice
      else dice)"
  by pat_completeness auto
termination
  by (relation "measure (\<lambda>(w, h, m, r, i, k, ds). rows m - i)") auto

text \<open>\<^verbatim>\<open>dice[j] || null\<close>: the element when there is one (an object is truthy), else null.\<close>

definition or_null :: "die list \<Rightarrow> nat \<Rightarrow> die option" where
  "or_null dice j = (if j < length dice then Some (dice ! j) else None)"

record dice_pair =
  red :: "die option"
  white :: "die option"

definition detectDice :: "real \<Rightarrow> real \<Rightarrow> mat \<Rightarrow> (nat \<Rightarrow> real) \<Rightarrow> dice_pair" where
  "detectDice width height diceCircles rnd =
     (let dice = dice_loop width height diceCircles rnd 0 0 []
      in \<lparr>red = or_null dice 0, white = or_null dice 1\<rparr>)"

section \<open>The log endpoint (save_move.php, PHP 8)\<close>

subsection \<open>The values \<^verbatim>\<open>json_decode($input, true)\<close> yields\<close>

text \<open>
  A PHP float is the real number the double stands for, or the negative zero, which PHP
  prints as \<^verbatim>\<open>-0\<close>. The script computes with floats in \<^verbatim>\<open>round\<close> only. A JSON object decodes to an
  array with string keys, here a list of key and value in the order of the array
  (a PHP array holds a key once); a JSON array decodes to a list.
\<close>

datatype phpfloat = Fl real | NegZero

datatype json =
    JNull
  | JBool bool
  | JInt int
  | JFloat phpfloat
  | JStr string
  | JArr "json list"
  | JObj "(string \<times> json) list"

datatype error = TypeError

text \<open>
  What the script uses of the PHP runtime without defining it: the JSON parser (null,
  here \<open>JNull\<close>, for a body that is not valid JSON), the coercion of a string passed
  where a number is expected (\<open>None\<close> when the string is not numeric, which raises a
  TypeError), the result of \<^verbatim>\<open>round\<close> where it depends on the version of PHP, and
  the text of a float that PHP does not print as a plain integer.
\<close>

record php =
  json_decode :: "string \<Rightarrow> json"
  numeric_str :: "string \<Rightarrow> phpfloat option"
  round_other :: "real \<Rightarrow> phpfloat"
  float_repr :: "real \<Rightarrow> string"

definition nl :: string where
  "nl = [CHR 0x0A]"

definition andthen :: "error + 'a \<Rightarrow> ('a \<Rightarrow> error + 'b) \<Rightarrow> error + 'b" where
  "andthen m f = (case m of Inl e \<Rightarrow> Inl e | Inr v \<Rightarrow> f v)"

text \<open>\<^verbatim>\<open>!$data\<close> holds for the values PHP takes as false.\<close>

fun truthy :: "json \<Rightarrow> bool" where
  "truthy JNull = False"
| "truthy (JBool b) = b"
| "truthy (JInt i) = (i \<noteq> 0)"
| "truthy (JFloat f) = (f \<noteq> Fl 0 \<and> f \<noteq> NegZero)"
| "truthy (JStr s) = (s \<noteq> [] \<and> s \<noteq> ''0'')"
| "truthy (JArr xs) = (xs \<noteq> [])"
| "truthy (JObj kvs) = (kvs \<noteq> [])"

text \<open>
  \<^verbatim>\<open>$v['k']\<close> as \<^verbatim>\<open>isset\<close> and \<^verbatim>\<open>??\<close> read it, for the keys of the script (none
  of them numeric): null when \<open>v\<close> is no array with that key; no warning, no error.
\<close>

fun lookup :: "json \<Rightarrow> string \<Rightarrow> json" where
  "lookup (JObj kvs) k = (case map_of kvs k of None \<Rightarrow> JNull | Some v \<Rightarrow> v)"
| "lookup v k = JNull"

definition isset :: "json \<Rightarrow> string \<Rightarrow> bool" where
  "isset v k = (lookup v k \<noteq> JNull)"

text \<open>
  \<^verbatim>\<open>$v['k']\<close> read as a value: null (with a warning) for a missing key and for an
  offset of null, a boolean or a number; a TypeError for a non-numeric offset of a string.
\<close>

fun offset :: "json \<Rightarrow> string \<Rightarrow> error + json" where
  "offset (JStr s) k = Inl TypeError"
| "offset v k = Inr (lookup v k)"

fun is_array :: "json \<Rightarrow> bool" where
  "is_array (JArr xs) = True"
| "is_array (JObj kvs) = True"
| "is_array v = False"

fun count_php :: "json \<Rightarrow> error + nat" where
  "count_php (JArr xs) = Inr (length xs)"
| "count_php (JObj kvs) = Inr (length kvs)"
| "count_php v = Inl TypeError"

text \<open>The values \<^verbatim>\<open>foreach\<close> visits; none (and a warning) when the operand is no array.\<close>

fun elements :: "json \<Rightarrow> json list" where
  "elements (JArr xs) = xs"
| "elements (JObj kvs) = map snd kvs"
| "elements v = []"

subsection \<open>Rounding and printing numbers\<close>

text \<open>
  \<^verbatim>\<open>round\<close> rounds to the nearest integer, a half away from zero
  (\<^verbatim>\<open>value >= 0.0 ? floor(value + 0.5) : ceil(value - 0.5)\<close>), and returns a float:
  the negative zero for a negative number that rounds to zero.

  Up to PHP 8.3 \<^verbatim>\<open>round\<close> first rounds its argument to 15 significant digits and
  adds the half in floating point; from PHP 8.4 on it is exact. The versions agree on a
  number below \<open>10^14\<close> in magnitude that is an integer, or an exact half, or away from
  the next half by \<open>10^-13\<close> of its magnitude (of 1 below 1): a \<open>settled\<close> number. On
  any other number the result is the runtime's.
\<close>

definition round_helper :: "real \<Rightarrow> int" where
  "round_helper v = (if 0 \<le> v then \<lfloor>v + 1 / 2\<rfloor> else \<lceil>v - 1 / 2\<rceil>)"

definition settled :: "real \<Rightarrow> bool" where
  "settled v =
     (\<bar>v\<bar> \<le> 10 ^ 14 - 1 \<and>
      (let d = \<bar>v\<bar> - of_int \<lfloor>\<bar>v\<bar>\<rfloor>
       in d = 0 \<or> d = 1 / 2 \<or> max 1 \<bar>v\<bar> / 10 ^ 13 \<le> \<bar>d - 1 / 2\<bar>))"

fun round_float :: "php \<Rightarrow> phpfloat \<Rightarrow> phpfloat" where
  "round_float rt NegZero = NegZero"
| "round_float rt (Fl v) =
     (if settled v
      then if v < 0 \<and> round_helper v = 0 then NegZero else Fl (of_int (round_helper v))
      else round_other rt v)"

text \<open>
  The argument of \<^verbatim>\<open>round\<close> is declared \<^verbatim>\<open>int|float\<close>: null and booleans are
  coerced, a numeric string too, anything else raises a TypeError.
\<close>

fun round_php :: "php \<Rightarrow> json \<Rightarrow> error + json" where
  "round_php rt JNull = Inr (JFloat (Fl 0))"
| "round_php rt (JBool b) = Inr (JFloat (Fl (if b then 1 else 0)))"
| "round_php rt (JInt i) = Inr (JFloat (Fl (of_int i)))"
| "round_php rt (JFloat f) = Inr (JFloat (round_float rt f))"
| "round_php rt (JStr s) =
     (case numeric_str rt s of None \<Rightarrow> Inl TypeError | Some f \<Rightarrow> Inr (JFloat (round_float rt f)))"
| "round_php rt (JArr xs) = Inl TypeError"
| "round_php rt (JObj kvs) = Inl TypeError"

fun digits :: "nat \<Rightarrow> string" where
  "digits n =
     (if n < 10 then [''0123456789'' ! n]
      else digits (n div 10) @ [''0123456789'' ! (n mod 10)])"

definition int_str :: "int \<Rightarrow> string" where
  "int_str i = (if i < 0 then CHR ''-'' # digits (nat (- i)) else digits (nat i))"

text \<open>
  A float in a string (precision 14): the digits of an integer below \<open>10^14\<close> in
  magnitude; any other float as the runtime prints it.
\<close>

fun float_str :: "php \<Rightarrow> phpfloat \<Rightarrow> string" where
  "float_str rt NegZero = ''-0''"
| "float_str rt (Fl v) =
     (if v = of_int \<lfloor>v\<rfloor> \<and> \<bar>v\<bar> < 10 ^ 14 then int_str \<lfloor>v\<rfloor> else float_repr rt v)"

text \<open>A value inside a double-quoted string, \<^verbatim>\<open>"{$v}"\<close>.\<close>

fun to_str :: "php \<Rightarrow> json \<Rightarrow> string" where
  "to_str rt JNull = []"
| "to_str rt (JBool b) = (if b then ''1'' else [])"
| "to_str rt (JInt i) = int_str i"
| "to_str rt (JFloat f) = float_str rt f"
| "to_str rt (JStr s) = s"
| "to_str rt (JArr xs) = ''Array''"
| "to_str rt (JObj kvs) = ''Array''"

subsection \<open>The lines of one game state\<close>

text \<open>\<^verbatim>\<open>isset($checker['x']) ? round($checker['x']) : 0\<close>\<close>

definition checker_coord :: "php \<Rightarrow> json \<Rightarrow> string \<Rightarrow> error + json" where
  "checker_coord rt checker k =
     (if isset checker k then andthen (offset checker k) (round_php rt) else Inr (JInt 0))"

text \<open>The \<^verbatim>\<open>foreach\<close> over the checkers: one line each, appended to \<^verbatim>\<open>$logEntries\<close>.\<close>

fun checkers_loop :: "php \<Rightarrow> json list \<Rightarrow> string list \<Rightarrow> error + string list" where
  "checkers_loop rt [] logEntries = Inr logEntries"
| "checkers_loop rt (checker # rest) logEntries =
     andthen (checker_coord rt checker ''x'') (\<lambda>x.
     andthen (checker_coord rt checker ''y'') (\<lambda>y.
     checkers_loop rt rest
       (logEntries @
        [''  - Checker at position (x:'' @ to_str rt x @ '', y:'' @ to_str rt y @ '')'' @ nl])))"

definition log_checkers :: "php \<Rightarrow> string \<Rightarrow> json \<Rightarrow> string list \<Rightarrow> error + string list" where
  "log_checkers rt timestamp gameState logEntries =
     (if isset gameState ''checkers'' \<and> is_array (lookup gameState ''checkers'')
      then andthen (count_php (lookup gameState ''checkers'')) (\<lambda>n.
           checkers_loop rt (elements (lookup gameState ''checkers''))
             (logEntries @
              [''['' @ timestamp @ ''] === CHECKERS === ('' @ int_str (int n) @ '' found)'' @ nl]))
      else Inr logEntries)"

text \<open>
  The line of one die: \<^verbatim>\<open>round($gameState['dice']['red']['x'])\<close>, the same for y, and
  \<^verbatim>\<open>$gameState['dice']['red']['pips'] ?? '?'\<close>.
\<close>

definition die_line :: "php \<Rightarrow> string \<Rightarrow> json \<Rightarrow> string list \<Rightarrow> error + string list" where
  "die_line rt colour d logEntries =
     andthen (andthen (offset d ''x'') (round_php rt)) (\<lambda>x.
     andthen (andthen (offset d ''y'') (round_php rt)) (\<lambda>y.
     let pips = (if isset d ''pips'' then lookup d ''pips'' else JStr ''?'')
     in Inr (logEntries @
        [''  - '' @ colour @ '' Die: '' @ to_str rt pips @ '' pips at (x:'' @ to_str rt x
           @ '', y:'' @ to_str rt y @ '')'' @ nl])))"

definition log_dice :: "php \<Rightarrow> string \<Rightarrow> json \<Rightarrow> string list \<Rightarrow> error + string list" where
  "log_dice rt timestamp gameState logEntries =
     (if isset gameState ''dice''
      then let logEntries = logEntries @ [''['' @ timestamp @ ''] === DICE ==='' @ nl];
               dice = lookup gameState ''dice''
           in andthen
                (if isset dice ''red'' then die_line rt ''Red'' (lookup dice ''red'') logEntries
                 else Inr logEntries)
                (\<lambda>logEntries.
                   if isset dice ''white''
                   then die_line rt ''White'' (lookup dice ''white'') logEntries
                   else Inr logEntries)
      else Inr logEntries)"

definition log_cube :: "php \<Rightarrow> string \<Rightarrow> json \<Rightarrow> string list \<Rightarrow> error + string list" where
  "log_cube rt timestamp gameState logEntries =
     (if isset gameState ''cube'' \<and> isset (lookup gameState ''cube'') ''x''
      then let logEntries = logEntries @ [''['' @ timestamp @ ''] === DOUBLING CUBE ==='' @ nl];
               cube = lookup gameState ''cube''
           in andthen (andthen (offset cube ''x'') (round_php rt)) (\<lambda>x.
              andthen (andthen (offset cube ''y'') (round_php rt)) (\<lambda>y.
              let value = (if isset cube ''value'' then lookup cube ''value'' else JStr ''?'')
              in Inr (logEntries @
                 [''  - Cube at (x:'' @ to_str rt x @ '', y:'' @ to_str rt y @ ''), value: ''
                    @ to_str rt value @ nl])))
      else Inr logEntries)"

text \<open>
  The body of the \<^verbatim>\<open>try\<close> block up to the write: \<^verbatim>\<open>$logEntries\<close> starts empty,
  takes the three sections in turn and ends with the empty line.
\<close>

definition log_entries :: "php \<Rightarrow> string \<Rightarrow> json \<Rightarrow> error + string list" where
  "log_entries rt timestamp gameState =
     andthen (log_checkers rt timestamp gameState []) (\<lambda>logEntries.
     andthen (log_dice rt timestamp gameState logEntries) (\<lambda>logEntries.
     andthen (log_cube rt timestamp gameState logEntries) (\<lambda>logEntries.
     Inr (logEntries @ [nl]))))"

subsection \<open>The request handler\<close>

record request =
  request_method :: string
  input :: string

text \<open>
  The server's side of one request: what \<^verbatim>\<open>date('Y-m-d H:i:s')\<close> returns, and whether
  the append to the log file goes through.
\<close>

record server =
  clock :: string
  writable :: bool

datatype reply =
    ErrorOnly string
  | ServerError string string
  | Success nat string

record response =
  status :: nat
  body :: reply

text \<open>
  A request ends in a response, or in a TypeError that nothing catches
  (\<^verbatim>\<open>catch (Exception $e)\<close> does not catch an Error).
\<close>

datatype outcome = Responded response | Uncaught error

text \<open>
  \<^verbatim>\<open>file_put_contents($logFile, $data, FILE_APPEND | LOCK_EX)\<close> on the content of the
  file: the number of bytes written, or false (\<open>None\<close>), the file then left as it was.
  The directory of the script exists while the script runs, so the \<^verbatim>\<open>mkdir\<close> branch
  is never taken and is left out.
\<close>

definition file_put_contents :: "bool \<Rightarrow> string \<Rightarrow> string \<Rightarrow> string \<times> nat option" where
  "file_put_contents ok file data' =
     (if ok then (file @ data', Some (length data')) else (file, None))"

definition save_move :: "php \<Rightarrow> server \<Rightarrow> request \<Rightarrow> string \<Rightarrow> outcome \<times> string" where
  "save_move rt srv req moves =
     (if request_method req \<noteq> ''POST''
      then (Responded \<lparr>status = 405, body = ErrorOnly ''Only POST method allowed''\<rparr>, moves)
      else
        let data' = json_decode rt (input req)
        in if \<not> truthy data' \<or> \<not> isset data' ''gameState'' \<or> \<not> isset data' ''timestamp''
           then (Responded \<lparr>status = 400, body = ErrorOnly ''Invalid data format''\<rparr>, moves)
           else
             let timestamp = clock srv;
                 gameState = lookup data' ''gameState''
             in case log_entries rt timestamp gameState of
                  Inl e \<Rightarrow> (Uncaught e, moves)
                | Inr logEntries \<Rightarrow>
                    let (moves', success) =
                          (if logEntries \<noteq> []
                           then let (file, written) =
                                      file_put_contents (writable srv) moves (concat logEntries)
                                in (file, written \<noteq> None)
                           else (moves, False))
                    in if success
                       then (Responded \<lparr>status = 200,
                                         body = Success (length logEntries) timestamp\<rparr>, moves')
                       else (Responded \<lparr>status = 500,
                                         body = ServerError ''Server error''
                                                  ''Failed to write to log file''\<rparr>, moves'))"

section \<open>Derived notions\<close>

subsection \<open>The detector\<close>

text \<open>The region the \<open>i\<close>-th pass of each loop of \<^verbatim>\<open>detectBoardRegions\<close> pushes.\<close>

definition top_region :: "real \<Rightarrow> real \<Rightarrow> nat \<Rightarrow> region" where
  "top_region regionWidth boardHeight i =
     \<lparr>point = i + 1, xpos = js_add (js_mul regionWidth (real i)) (js_div regionWidth 2),
      ypos = js_mul boardHeight (fl (1 / 10)), side = Top\<rparr>"

definition bottom_region :: "real \<Rightarrow> real \<Rightarrow> nat \<Rightarrow> region" where
  "bottom_region regionWidth boardHeight i =
     \<lparr>point = i + 13, xpos = js_add (js_mul regionWidth (real i)) (js_div regionWidth 2),
      ypos = js_mul boardHeight (fl (9 / 10)), side = Bottom\<rparr>"

text \<open>
  The relative error of one, two and three roundings in a row: \<open>2^-53\<close> for the first,
  and \<open>e + (1 + e) * 2^-53\<close> for one more after an error of \<open>e\<close>.
\<close>

definition e1 :: real where "e1 = 1 / 2 ^ 53"

definition e2 :: real where "e2 = e1 + (1 + e1) / 2 ^ 53"

definition e3 :: real where "e3 = e2 + (1 + e2) / 2 ^ 53"

text \<open>
  The test of \<^verbatim>\<open>detectDice\<close> on row \<open>i\<close>, the die it pushes for that row, the rows
  that pass in the order of the matrix, and the dice pushed for a list of rows, the
  \<open>k\<close>-th draw of \<^verbatim>\<open>Math.random()\<close> going to the first of them.
\<close>

definition passes :: "real \<Rightarrow> real \<Rightarrow> mat \<Rightarrow> nat \<Rightarrow> bool" where
  "passes width height diceCircles i =
     (gt (at32F (data32F diceCircles) (i * 3)) 0 \<and>
      gt (at32F (data32F diceCircles) (i * 3 + 1)) 0 \<and>
      lt (at32F (data32F diceCircles) (i * 3)) width \<and>
      lt (at32F (data32F diceCircles) (i * 3 + 1)) height \<and>
      lt (at32F (data32F diceCircles) (i * 3 + 2)) 25)"

definition die_of :: "mat \<Rightarrow> nat \<Rightarrow> real \<Rightarrow> die" where
  "die_of diceCircles i random =
     \<lparr>die_x = at32F (data32F diceCircles) (i * 3),
      die_y = at32F (data32F diceCircles) (i * 3 + 1),
      die_radius = at32F (data32F diceCircles) (i * 3 + 2),
      die_pips = detectDicePips random (at32F (data32F diceCircles) (i * 3))
                   (at32F (data32F diceCircles) (i * 3 + 1))
                   (at32F (data32F diceCircles) (i * 3 + 2))\<rparr>"

definition detected :: "real \<Rightarrow> real \<Rightarrow> mat \<Rightarrow> nat list" where
  "detected width height diceCircles = filter (passes width height diceCircles) [0..<rows diceCircles]"

fun dice_from :: "mat \<Rightarrow> (nat \<Rightarrow> real) \<Rightarrow> nat \<Rightarrow> nat list \<Rightarrow> die list" where
  "dice_from m rnd k [] = []"
| "dice_from m rnd k (i # is) = die_of m i (rnd k) # dice_from m rnd (k + 1) is"

subsection \<open>The log endpoint\<close>

text \<open>
  The values \<^verbatim>\<open>round\<close> takes without a TypeError, and the game states whose
  coordinates are all of that kind. A string is no die: its offset \<^verbatim>\<open>['x']\<close> cannot
  be read. Neither the pip count nor the cube value plays a part.
\<close>

fun roundable :: "php \<Rightarrow> json \<Rightarrow> bool" where
  "roundable rt (JStr s) = (numeric_str rt s \<noteq> None)"
| "roundable rt (JArr xs) = False"
| "roundable rt (JObj kvs) = False"
| "roundable rt v = True"

fun is_string :: "json \<Rightarrow> bool" where
  "is_string (JStr s) = True"
| "is_string v = False"

definition checker_ok :: "php \<Rightarrow> json \<Rightarrow> bool" where
  "checker_ok rt checker =
     (roundable rt (lookup checker ''x'') \<and> roundable rt (lookup checker ''y''))"

definition die_ok :: "php \<Rightarrow> json \<Rightarrow> bool" where
  "die_ok rt d =
     (\<not> is_string d \<and> roundable rt (lookup d ''x'') \<and> roundable rt (lookup d ''y''))"

definition snapshot_ok :: "php \<Rightarrow> json \<Rightarrow> bool" where
  "snapshot_ok rt gameState =
     (list_all (checker_ok rt) (elements (lookup gameState ''checkers'')) \<and>
      die_ok rt (lookup (lookup gameState ''dice'') ''red'') \<and>
      die_ok rt (lookup (lookup gameState ''dice'') ''white'') \<and>
      (if isset (lookup gameState ''cube'') ''x''
       then roundable rt (lookup (lookup gameState ''cube'') ''x'') \<and>
            roundable rt (lookup (lookup gameState ''cube'') ''y'')
       else True))"

text \<open>The lines of a game state in closed form, section by section.\<close>

definition rounded_text :: "php \<Rightarrow> json \<Rightarrow> string" where
  "rounded_text rt v = (case round_php rt v of Inl e \<Rightarrow> [] | Inr r \<Rightarrow> to_str rt r)"

definition checker_text :: "php \<Rightarrow> json \<Rightarrow> string" where
  "checker_text rt checker =
     ''  - Checker at position (x:''
       @ (if isset checker ''x'' then rounded_text rt (lookup checker ''x'') else ''0'')
       @ '', y:''
       @ (if isset checker ''y'' then rounded_text rt (lookup checker ''y'') else ''0'')
       @ '')'' @ nl"

definition checkers_part :: "php \<Rightarrow> string \<Rightarrow> json \<Rightarrow> string list" where
  "checkers_part rt timestamp gameState =
     (if is_array (lookup gameState ''checkers'')
      then (''['' @ timestamp @ ''] === CHECKERS === (''
              @ int_str (int (length (elements (lookup gameState ''checkers'')))) @ '' found)'' @ nl)
           # map (checker_text rt) (elements (lookup gameState ''checkers''))
      else [])"

definition die_text :: "php \<Rightarrow> string \<Rightarrow> json \<Rightarrow> string" where
  "die_text rt colour d =
     ''  - '' @ colour @ '' Die: ''
       @ (if isset d ''pips'' then to_str rt (lookup d ''pips'') else ''?'')
       @ '' pips at (x:'' @ rounded_text rt (lookup d ''x'')
       @ '', y:'' @ rounded_text rt (lookup d ''y'') @ '')'' @ nl"

definition dice_part :: "php \<Rightarrow> string \<Rightarrow> json \<Rightarrow> string list" where
  "dice_part rt timestamp gameState =
     (if isset gameState ''dice''
      then (''['' @ timestamp @ ''] === DICE ==='' @ nl)
           # (if isset (lookup gameState ''dice'') ''red''
              then [die_text rt ''Red'' (lookup (lookup gameState ''dice'') ''red'')] else [])
           @ (if isset (lookup gameState ''dice'') ''white''
              then [die_text rt ''White'' (lookup (lookup gameState ''dice'') ''white'')] else [])
      else [])"

definition cube_part :: "php \<Rightarrow> string \<Rightarrow> json \<Rightarrow> string list" where
  "cube_part rt timestamp gameState =
     (if isset (lookup gameState ''cube'') ''x''
      then [''['' @ timestamp @ ''] === DOUBLING CUBE ==='' @ nl,
            ''  - Cube at (x:'' @ rounded_text rt (lookup (lookup gameState ''cube'') ''x'')
              @ '', y:'' @ rounded_text rt (lookup (lookup gameState ''cube'') ''y'')
              @ ''), value: ''
              @ (if isset (lookup gameState ''cube'') ''value''
                 then to_str rt (lookup (lookup gameState ''cube'') ''value'') else ''?'')
              @ nl]
      else [])"

text \<open>
  A submission that passes the validation, and the game state it carries
  (\<^verbatim>\<open>$gameState = $data['gameState']\<close>).
\<close>

definition accepted :: "php \<Rightarrow> request \<Rightarrow> bool" where
  "accepted rt req =
     (request_method req = ''POST'' \<and>
      truthy (json_decode rt (input req)) \<and>
      isset (json_decode rt (input req)) ''gameState'' \<and>
      isset (json_decode rt (input req)) ''timestamp'')"

definition game_state :: "php \<Rightarrow> request \<Rightarrow> json" where
  "game_state rt req = lookup (json_decode rt (input req)) ''gameState''"



definition checkers_header :: "string \<Rightarrow> string \<Rightarrow> bool" where
  "checkers_header timestamp l = prefix (''['' @ timestamp @ ''] === CHECKERS ==='') l"



text \<open>
  The log as a text: a string is free of line feeds; an entry is one line when the feed
  at its end is its only one; the lines of a text are its parts between the line feeds.
  \<open>interpolated\<close> lists the texts the script puts into the detail lines of a game state,
  in the order of the lines.
\<close>

definition feed_free :: "string \<Rightarrow> bool" where
  "feed_free s = (CHR 0x0A \<notin> set s)"








subsection \<open>Examples\<close>

text \<open>
  A matrix of two circles, the first of them outside a canvas of 640 by 480; a runtime
  whose parser rejects every body; a runtime with a given parser; the submission of a
  game state with a timestamp; a POST request; game states, among them the one the
  detector sends when it finds nothing (\<open>empty_state\<close>).
\<close>

definition one_circle :: mat where
  "one_circle = \<lparr>rows = 2, data32F = [700, 100, 30, 170, 200, 10]\<rparr>"

definition example_php :: php where
  "example_php =
     \<lparr>json_decode = (\<lambda>s. JNull), numeric_str = (\<lambda>s. None),
      round_other = (\<lambda>v. if v < 0 \<and> round_helper v = 0 then NegZero
                            else Fl (of_int (round_helper v))),
      float_repr = (\<lambda>v. ''?'')\<rparr>"

definition decoding :: "(string \<Rightarrow> json) \<Rightarrow> php" where
  "decoding f =
     \<lparr>json_decode = f, numeric_str = (\<lambda>s. None),
      round_other = (\<lambda>v. if v < 0 \<and> round_helper v = 0 then NegZero
                            else Fl (of_int (round_helper v))),
      float_repr = (\<lambda>v. ''?'')\<rparr>"

definition submission :: "json \<Rightarrow> string \<Rightarrow> json" where
  "submission gameState timestamp =
     JObj [(''gameState'', gameState), (''timestamp'', JStr timestamp)]"

definition post :: "string \<Rightarrow> request" where
  "post s = \<lparr>request_method = ''POST'', input = s\<rparr>"

definition example_state :: json where
  "example_state =
     JObj [(''checkers'', JArr [JObj [(''x'', JFloat (Fl 120.4)), (''y'', JFloat (Fl 339.6))],
                                JObj [(''x'', JInt 180), (''y'', JInt 290)]]),
           (''dice'', JObj [(''red'', JObj [(''x'', JInt 150), (''y'', JInt 200)]),
                            (''white'', JNull)]),
           (''cube'', JObj [(''x'', JInt 50), (''y'', JInt 300)])]"

definition no_dice_state :: json where
  "no_dice_state =
     JObj [(''checkers'', JArr []), (''dice'', JObj [(''red'', JNull), (''white'', JNull)])]"

definition empty_state :: json where
  "empty_state =
     JObj [(''checkers'', JArr []),
           (''dice'', JObj [(''red'', JNull), (''white'', JNull)]),
           (''cube'', JObj [(''position'', JNull), (''value'', JNull)])]"

definition bare_state :: json where
  "bare_state = JObj [(''checkers'', JArr [])]"

definition no_pips_state :: json where
  "no_pips_state =
     JObj [(''dice'', JObj [(''red'', JObj [(''x'', JInt 150), (''y'', JInt 200)]),
                            (''white'', JObj [(''x'', JFloat (Fl 170.5)), (''y'', JInt 200),
                                              (''pips'', JInt 4)])]),
           (''cube'', JObj [(''x'', JInt 50), (''y'', JInt 300)])]"

definition no_checkers_state :: json where
  "no_checkers_state = JObj [(''dice'', JObj [(''red'', JNull), (''white'', JNull)])]"



section \<open>Properties of the detector\<close>

declare top_loop.simps [simp del] bottom_loop.simps [simp del] dice_loop.simps [simp del]

declare bit_length.simps [simp del]

subsection \<open>Rounding to the nearest double\<close>

text \<open>
  \<open>expo\<close> is the exponent it is meant to be, \<open>fl x\<close> is within half an \<open>ulp\<close> of
  \<open>x\<close>, and from \<open>2^(-1022)\<close> on that is a relative error of \<open>2^-53\<close> at most.
  \<open>fl_eval\<close> evaluates \<open>fl\<close> on a given number.
\<close>

lemma pow2_powr: "pow2 k = 2 powr (of_int k)"
proof (cases "0 \<le> k")
  case True
  then have "2 powr (of_int k) = (2::real) ^ nat k"
    by (simp add: powr_realpow [symmetric])
  with True show ?thesis by (simp add: pow2_def)
next
  case False
  then have "2 powr (of_int k) = 1 / (2::real) powr (of_int (- k))"
    by (simp add: powr_minus_divide)
  also have "\<dots> = 1 / (2::real) ^ nat (- k)"
    using False by (simp add: powr_realpow [symmetric])
  finally show ?thesis using False by (simp add: pow2_def)
qed

lemma pow2_pos [simp]: "0 < pow2 k"
  by (simp add: pow2_powr)

lemma pow2_add: "pow2 (a + b) = pow2 a * pow2 b"
  by (simp add: pow2_powr powr_add)

lemma pow2_mono: "a \<le> b \<Longrightarrow> pow2 a \<le> pow2 b"
  by (simp add: pow2_powr)

lemma pow2_less_iff: "pow2 a < pow2 b \<longleftrightarrow> a < b"
  by (simp add: pow2_powr)

lemma pow2_nat: "pow2 (int n) = 2 ^ n"
  by (simp add: pow2_def)

lemma pow2_neg_nat: "pow2 (- int n) = 1 / 2 ^ n"
proof (cases n)
  case 0
  then show ?thesis by (simp add: pow2_def)
next
  case (Suc m)
  have a: "nat (- (- int n)) = n" by simp
  have b: "\<not> 0 \<le> - int n" using Suc by simp
  show ?thesis unfolding pow2_def a using b by (simp only: if_False)
qed

lemma bit_length_bounds:
  "0 < n \<Longrightarrow> 2 ^ (bit_length n - 1) \<le> n \<and> n < 2 ^ bit_length n"
proof (induction n rule: bit_length.induct)
  case (1 n)
  show ?case
  proof (cases "n div 2 = 0")
    case True
    with "1.prems" have "n = 1" by (simp add: div_eq_0_iff) 
    then show ?thesis by (simp add: bit_length.simps)
  next
    case False
    then have pos: "0 < n div 2" by simp
    from "1.IH" "1.prems" pos
    have ih: "2 ^ (bit_length (n div 2) - 1) \<le> n div 2" "n div 2 < 2 ^ bit_length (n div 2)"
      by simp_all
    have bl: "bit_length n = Suc (bit_length (n div 2))"
      using "1.prems" by (subst bit_length.simps) simp
    have nz: "bit_length (n div 2) \<noteq> 0"
      using pos by (subst bit_length.simps) simp
    then obtain j where j: "bit_length (n div 2) = Suc j" by (cases "bit_length (n div 2)") simp_all
    from ih j have "2 ^ j \<le> n div 2" "n div 2 < 2 ^ Suc j" by simp_all
    then have "2 ^ Suc j \<le> n" "n < 2 ^ Suc (Suc j)" by (simp_all; linarith)+
    with bl j show ?thesis by simp
  qed
qed

lemma nat_pow2_le_real: "(2::nat) ^ j \<le> n \<Longrightarrow> (2::real) ^ j \<le> real n"
proof -
  assume "(2::nat) ^ j \<le> n"
  then have "real ((2::nat) ^ j) \<le> real n" by (simp only: of_nat_le_iff)
  then show ?thesis by simp
qed

lemma nat_less_pow2_real: "n < (2::nat) ^ j \<Longrightarrow> real n + 1 \<le> (2::real) ^ j"
proof -
  assume "n < (2::nat) ^ j"
  then have "Suc n \<le> 2 ^ j" by simp
  then have "real (Suc n) \<le> real ((2::nat) ^ j)" by (simp only: of_nat_le_iff)
  then show ?thesis by simp
qed

lemma bit_length_Suc: "0 < n \<Longrightarrow> \<exists>j. bit_length n = Suc j"
  by (subst bit_length.simps) simp

lemma expo_correct:
  assumes "0 < x"
  shows "pow2 (expo x) \<le> x \<and> x < pow2 (expo x + 1)"
proof (cases "1 \<le> x")
  case True
  define n where "n = nat \<lfloor>x\<rfloor>"
  from True have fl1: "1 \<le> \<lfloor>x\<rfloor>" by linarith
  then have rn: "real n = of_int \<lfloor>x\<rfloor>" unfolding n_def by simp
  have f: "of_int \<lfloor>x\<rfloor> \<le> x" "x < of_int \<lfloor>x\<rfloor> + 1" by linarith+
  from fl1 have n0: "0 < n" unfolding n_def by simp
  from bit_length_Suc [OF n0] obtain j where j: "bit_length n = Suc j" by blast
  from bit_length_bounds [OF n0] j have b: "2 ^ j \<le> n" "n < 2 ^ Suc j"
    by simp_all
  have e: "expo x = int j" using True by (simp add: expo_def n_def [symmetric] j)
  from nat_pow2_le_real [OF b(1)] f(1) rn have lo: "(2::real) ^ j \<le> x" by linarith
  from nat_less_pow2_real [OF b(2)] f(2) rn have hi: "x < (2::real) ^ Suc j" by linarith
  have "expo x + 1 = int (Suc j)" using e by simp
  then have p1: "pow2 (expo x + 1) = 2 ^ Suc j" by (simp only: pow2_nat)
  have p0: "pow2 (expo x) = 2 ^ j" unfolding e by (simp only: pow2_nat)
  show ?thesis unfolding p0 p1 using lo hi by blast
next
  case False
  define y where "y = 1 / x"
  from False assms have y: "1 < y" by (simp add: y_def)
  define c where "c = nat (\<lceil>y\<rceil> - 1)"
  from y have c1: "1 \<le> \<lceil>y\<rceil> - 1" by linarith
  then have rc: "real c = of_int \<lceil>y\<rceil> - 1" unfolding c_def by simp
  have g: "of_int \<lceil>y\<rceil> - 1 < y" "y \<le> of_int \<lceil>y\<rceil>" by linarith+
  from c1 have c0: "0 < c" unfolding c_def by simp
  from bit_length_Suc [OF c0] obtain j where j: "bit_length c = Suc j" by blast
  from bit_length_bounds [OF c0] j have b: "2 ^ j \<le> c" "c < 2 ^ Suc j"
    by simp_all
  have e: "expo x = - int (Suc j)"
    using False by (simp add: expo_def y_def [symmetric] c_def [symmetric] j)
  from nat_pow2_le_real [OF b(1)] g(1) rc have ylo: "(2::real) ^ j < y" by linarith
  from nat_less_pow2_real [OF b(2)] g(2) rc have yhi: "y \<le> (2::real) ^ Suc j" by linarith
  have x: "x = 1 / y" using assms by (simp add: y_def)
  have p: "(0::real) < 2 ^ j" "(0::real) < 2 ^ Suc j" by simp_all
  from y have ypos: "0 < y" by simp
  have m1: "0 < 2 ^ Suc j * y" using p(2) ypos by (rule mult_pos_pos)
  have m2: "0 < y * 2 ^ j" using ypos p(1) by (rule mult_pos_pos)
  have lo: "1 / 2 ^ Suc j \<le> x"
    unfolding x using divide_left_mono [OF yhi _ m1, of 1] by simp
  have hi: "x < 1 / 2 ^ j"
    unfolding x using divide_strict_left_mono [OF ylo _ m2, of 1] by simp
  have p0: "pow2 (expo x) = 1 / 2 ^ Suc j" unfolding e by (rule pow2_neg_nat)
  have "expo x + 1 = - int j" using e by simp
  then have p1: "pow2 (expo x + 1) = 1 / 2 ^ j" by (simp only: pow2_neg_nat)
  show ?thesis unfolding p0 p1 using lo hi by blast
qed

lemma expo_unique:
  assumes "0 < x" and "pow2 k \<le> x" and "x < pow2 (k + 1)"
  shows "expo x = k"
proof -
  from expo_correct [OF assms(1)] have e: "pow2 (expo x) \<le> x" "x < pow2 (expo x + 1)"
    by simp_all
  from assms(2) e(2) have "pow2 k < pow2 (expo x + 1)" by linarith
  then have "k < expo x + 1" by (simp add: pow2_less_iff)
  moreover from e(1) assms(3) have "pow2 (expo x) < pow2 (k + 1)" by linarith
  then have "expo x < k + 1" by (simp add: pow2_less_iff)
  ultimately show ?thesis by simp
qed

lemma rhe_error: "\<bar>of_int (rhe y) - y\<bar> \<le> 1 / 2"
proof -
  have f: "of_int \<lfloor>y\<rfloor> \<le> y" "y < of_int \<lfloor>y\<rfloor> + 1" by linarith+
  consider "y - of_int \<lfloor>y\<rfloor> < 1 / 2" | "1 / 2 < y - of_int \<lfloor>y\<rfloor>"
    | "y - of_int \<lfloor>y\<rfloor> = 1 / 2" by linarith
  then show ?thesis
  proof cases
    case 1
    then have "rhe y = \<lfloor>y\<rfloor>" by (simp add: rhe_def Let_def)
    with 1 f show ?thesis by simp
  next
    case 2
    then have "rhe y = \<lfloor>y\<rfloor> + 1" by (simp add: rhe_def Let_def)
    with 2 f show ?thesis by simp
  next
    case 3
    then have "rhe y = \<lfloor>y\<rfloor> \<or> rhe y = \<lfloor>y\<rfloor> + 1" by (simp add: rhe_def Let_def)
    with 3 show ?thesis by auto
  qed
qed

lemma fl_error: "\<bar>fl x - x\<bar> \<le> ulp x / 2"
proof (cases "x = 0")
  case True
  then show ?thesis by (simp add: fl_def ulp_def less_imp_le)
next
  case False
  have u: "0 < ulp x" by (simp add: ulp_def)
  have "\<bar>of_int (rhe (x / ulp x)) - x / ulp x\<bar> \<le> 1 / 2" by (rule rhe_error)
  then have "\<bar>of_int (rhe (x / ulp x)) - x / ulp x\<bar> * ulp x \<le> 1 / 2 * ulp x"
    using u by (intro mult_right_mono) simp_all
  moreover have "\<bar>of_int (rhe (x / ulp x)) - x / ulp x\<bar> * ulp x =
        \<bar>of_int (rhe (x / ulp x)) * ulp x - x\<bar>"
  proof -
    have "\<bar>of_int (rhe (x / ulp x)) - x / ulp x\<bar> * ulp x =
          \<bar>of_int (rhe (x / ulp x)) - x / ulp x\<bar> * \<bar>ulp x\<bar>"
      using u by simp
    also have "\<dots> = \<bar>(of_int (rhe (x / ulp x)) - x / ulp x) * ulp x\<bar>"
      by (simp only: abs_mult)
    also have "(of_int (rhe (x / ulp x)) - x / ulp x) * ulp x =
               of_int (rhe (x / ulp x)) * ulp x - x"
      using u by (simp add: left_diff_distrib)
    finally show ?thesis .
  qed
  ultimately show ?thesis using False by (simp add: fl_def)
qed

lemma ulp_normal:
  assumes "pow2 (- 1022) \<le> \<bar>x\<bar>"
  shows "ulp x \<le> \<bar>x\<bar> / 2 ^ 52"
proof -
  have pos: "0 < \<bar>x\<bar>" using assms pow2_pos [of "- 1022"] by linarith
  from expo_correct [OF pos] have e: "pow2 (expo \<bar>x\<bar>) \<le> \<bar>x\<bar>" "\<bar>x\<bar> < pow2 (expo \<bar>x\<bar> + 1)"
    by simp_all
  from assms e(2) have "pow2 (- 1022) < pow2 (expo \<bar>x\<bar> + 1)" by linarith
  then have "- 1022 \<le> expo \<bar>x\<bar>" by (simp add: pow2_less_iff)
  then have "ulp x = pow2 (expo \<bar>x\<bar> + (- 52))" by (simp add: ulp_def max_def)
  also have "\<dots> = pow2 (expo \<bar>x\<bar>) * pow2 (- 52)" by (rule pow2_add)
  also have "pow2 (- 52) = 1 / 2 ^ 52" using pow2_neg_nat [of 52] by simp
  finally have "ulp x = pow2 (expo \<bar>x\<bar>) / 2 ^ 52" by simp
  with e(1) show ?thesis by (simp add: divide_right_mono)
qed

lemma fl_rel_error:
  assumes "pow2 (- 1022) \<le> \<bar>x\<bar>"
  shows "\<bar>fl x - x\<bar> \<le> \<bar>x\<bar> / 2 ^ 53"
  using fl_error [of x] ulp_normal [OF assms] by simp

lemmas fl_eval = fl_def ulp_def expo_def bit_length.simps pow2_def rhe_def Let_def

lemma rhe_nonneg: "0 \<le> y \<Longrightarrow> 0 \<le> rhe y"
proof -
  assume "0 \<le> y"
  then have "0 \<le> \<lfloor>y\<rfloor>" by simp
  then show ?thesis by (simp add: rhe_def Let_def)
qed

lemma ulp_pos [simp]: "0 < ulp x"
  by (simp add: ulp_def)

lemma fl_nonneg: "0 \<le> x \<Longrightarrow> 0 \<le> fl x"
proof -
  assume x: "0 \<le> x"
  then have "0 \<le> x / ulp x" by (simp add: less_imp_le)
  then have "0 \<le> rhe (x / ulp x)" by (rule rhe_nonneg)
  then show ?thesis by (simp add: fl_def less_imp_le)
qed

lemma expo_less:
  assumes "0 < x" and "x < pow2 k"
  shows "expo x < k"
proof -
  from expo_correct [OF assms(1)] assms(2) have "pow2 (expo x) < pow2 k" by linarith
  then show ?thesis by (simp add: pow2_less_iff)
qed

lemma ulp_binade:
  assumes "pow2 k \<le> \<bar>x\<bar>" and "\<bar>x\<bar> < pow2 (k + 1)" and "- 1022 \<le> k"
  shows "ulp x = pow2 (k - 52)"
proof -
  have "0 < \<bar>x\<bar>" using assms(1) pow2_pos [of k] by linarith
  from expo_unique [OF this assms(1,2)] assms(3) show ?thesis
    by (simp add: ulp_def max_def)
qed

lemma pow2_small: "pow2 (- 1022) \<le> 1 / 128"
proof -
  have "pow2 (- 1022) \<le> pow2 (- 7)" by (rule pow2_mono) simp
  also have "pow2 (- 7) = 1 / 128" by (simp add: pow2_def)
  finally show ?thesis .
qed

lemma fl_rel:
  assumes b: "1 / 64 \<le> b" and ab: "\<bar>a - b\<bar> \<le> b * d" and d: "0 \<le> d" "d \<le> 1 / 2"
  shows "\<bar>fl a - b\<bar> \<le> b * (d + (1 + d) / 2 ^ 53)"
proof -
  from b have bpos: "0 < b" by simp
  from d(2) bpos have "b * d \<le> b * (1 / 2)" by (intro mult_left_mono) simp_all
  with ab have lo: "b / 2 \<le> a" by (simp add: abs_le_iff) 
  with b have a: "1 / 128 \<le> a" by simp
  with pow2_small have "pow2 (- 1022) \<le> \<bar>a\<bar>" by simp
  from fl_rel_error [OF this] a have e: "\<bar>fl a - a\<bar> \<le> a / 2 ^ 53" by simp
  from ab have "a \<le> b + b * d" by (simp add: abs_le_iff)
  then have "a / 2 ^ 53 \<le> (b + b * d) / 2 ^ 53" by (rule divide_right_mono) simp
  with e have "\<bar>fl a - a\<bar> \<le> (b + b * d) / 2 ^ 53" by linarith
  with ab have "\<bar>fl a - b\<bar> \<le> b * d + (b + b * d) / 2 ^ 53" by linarith
  also have "\<dots> = b * (d + (1 + d) / 2 ^ 53)" by (simp add: algebra_simps)
  finally show ?thesis .
qed

lemma e_bounds: "0 \<le> e1" "e1 \<le> 1 / 2" "0 \<le> e2" "e2 \<le> 1 / 2" "e3 \<le> 4 / 2 ^ 53" "0 \<le> e3"
  by (simp_all add: e1_def e2_def e3_def)

subsection \<open>Board regions\<close>

lemma top_loop_map:
  "i \<le> 12 \<Longrightarrow> top_loop rw h i rs = rs @ map (top_region rw h) [i..<12]"
proof (induction rw h i rs rule: top_loop.induct)
  case (1 rw h i rs)
  show ?case
  proof (cases "i < 12")
    case True
    then have "top_loop rw h i rs = top_loop rw h (i + 1) (rs @ [top_region rw h i])"
      by (subst top_loop.simps) (simp add: top_region_def)
    also have "\<dots> = (rs @ [top_region rw h i]) @ map (top_region rw h) [i + 1..<12]"
      using True "1.IH" by (simp add: top_region_def)
    also have "\<dots> = rs @ map (top_region rw h) [i..<12]"
      using True by (simp add: upt_conv_Cons)
    finally show ?thesis .
  next
    case False
    with "1.prems" have "i = 12" by simp
    then show ?thesis by (subst top_loop.simps) simp
  qed
qed

lemma bottom_loop_map:
  "i \<le> 12 \<Longrightarrow> bottom_loop rw h i rs = rs @ map (bottom_region rw h) [i..<12]"
proof (induction rw h i rs rule: bottom_loop.induct)
  case (1 rw h i rs)
  show ?case
  proof (cases "i < 12")
    case True
    then have "bottom_loop rw h i rs = bottom_loop rw h (i + 1) (rs @ [bottom_region rw h i])"
      by (subst bottom_loop.simps) (simp add: bottom_region_def)
    also have "\<dots> = (rs @ [bottom_region rw h i]) @ map (bottom_region rw h) [i + 1..<12]"
      using True "1.IH" by (simp add: bottom_region_def)
    also have "\<dots> = rs @ map (bottom_region rw h) [i..<12]"
      using True by (simp add: upt_conv_Cons)
    finally show ?thesis .
  next
    case False
    with "1.prems" have "i = 12" by simp
    then show ?thesis by (subst bottom_loop.simps) simp
  qed
qed

lemma detectBoardRegions_rows:
  "detectBoardRegions W H =
     map (top_region (js_div W 12) H) [0..<12] @ map (bottom_region (js_div W 12) H) [0..<12]"
  by (simp add: detectBoardRegions_def Let_def top_loop_map bottom_loop_map)

lemma detectBoardRegions_top:
  "i < 12 \<Longrightarrow> detectBoardRegions W H ! i = top_region (js_div W 12) H i"
  by (simp add: detectBoardRegions_rows nth_append)

lemma detectBoardRegions_bottom:
  "12 \<le> i \<Longrightarrow> i < 24 \<Longrightarrow> detectBoardRegions W H ! i = bottom_region (js_div W 12) H (i - 12)"
  by (simp add: detectBoardRegions_rows nth_append)

lemma xpos_top: "xpos (top_region rw H i) = js_add (js_mul rw (real i)) (js_div rw 2)"
  by (simp add: top_region_def)

lemma xpos_bottom: "xpos (bottom_region rw H i) = js_add (js_mul rw (real i)) (js_div rw 2)"
  by (simp add: bottom_region_def)

lemma column_error:
  assumes W: "1 \<le> W" and i: "i < 12"
  shows "\<bar>js_add (js_mul (js_div W 12) (real i)) (js_div (js_div W 12) 2)
          - (W / 12) * (real i + 1 / 2)\<bar> \<le> W / 2 ^ 51"
proof -
  define c where "c = W / 12"
  define rw where "rw = js_div W 12"
  from W have c: "1 / 12 \<le> c" by (simp add: c_def)
  then have cpos: "0 < c" by simp
  have "\<bar>fl c - c\<bar> \<le> c * (0 + (1 + 0) / 2 ^ 53)"
    using c by (intro fl_rel) simp_all
  then have rw: "\<bar>rw - c\<bar> \<le> c * e1" by (simp add: rw_def js_div_def c_def e1_def)
  have p: "\<bar>js_mul rw (real i) - c * real i\<bar> \<le> (c * real i) * e2"
  proof (cases "i = 0")
    case True
    then show ?thesis by (simp add: js_mul_def fl_def)
  next
    case False
    then have i1: "1 \<le> real i" by simp
    with c have "1 / 12 \<le> c * real i"
      using mult_mono [of "1 / 12" c 1 "real i"] by simp
    then have b: "1 / 64 \<le> c * real i" by simp
    have "\<bar>rw * real i - c * real i\<bar> = \<bar>rw - c\<bar> * real i"
      by (simp add: left_diff_distrib [symmetric] abs_mult)
    also have "\<dots> \<le> (c * e1) * real i" using rw by (intro mult_right_mono) simp_all
    finally have "\<bar>rw * real i - c * real i\<bar> \<le> (c * real i) * e1" by (simp add: mult_ac)
    from fl_rel [OF b this e_bounds(1,2)] show ?thesis by (simp add: js_mul_def e2_def)
  qed
  have h: "\<bar>js_div rw 2 - c / 2\<bar> \<le> (c / 2) * e2"
  proof -
    from c have b: "1 / 64 \<le> c / 2" by simp
    have "\<bar>rw / 2 - c / 2\<bar> = \<bar>rw - c\<bar> / 2" by (simp add: diff_divide_distrib [symmetric])
    also have "\<dots> \<le> (c * e1) / 2" using rw by (intro divide_right_mono) simp_all
    finally have "\<bar>rw / 2 - c / 2\<bar> \<le> (c / 2) * e1" by simp
    from fl_rel [OF b this e_bounds(1,2)] show ?thesis by (simp add: js_div_def e2_def)
  qed
  define b where "b = c * (real i + 1 / 2)"
  have bsum: "b = c * real i + c / 2" by (simp add: b_def algebra_simps)
  from c have "1 / 24 \<le> c / 2" by simp
  moreover have "0 \<le> c * real i" using cpos by simp
  ultimately have b64: "1 / 64 \<le> b" unfolding bsum by linarith
  have s: "\<bar>(js_mul rw (real i) + js_div rw 2) - b\<bar> \<le> b * e2"
  proof -
    have "\<bar>(js_mul rw (real i) + js_div rw 2) - b\<bar> \<le>
          \<bar>js_mul rw (real i) - c * real i\<bar> + \<bar>js_div rw 2 - c / 2\<bar>"
      unfolding bsum by linarith
    also have "\<dots> \<le> (c * real i) * e2 + (c / 2) * e2" using p h by linarith
    also have "\<dots> = b * e2" unfolding bsum by (simp add: algebra_simps)
    finally show ?thesis .
  qed
  from fl_rel [OF b64 s e_bounds(3,4)]
  have x: "\<bar>js_add (js_mul rw (real i)) (js_div rw 2) - b\<bar> \<le> b * e3"
    by (simp add: js_add_def e3_def)
  from i have "real i + 1 / 2 \<le> 12" by simp
  with cpos have "b \<le> c * 12" unfolding b_def by (intro mult_left_mono) simp_all
  then have bW: "b \<le> W" by (simp add: c_def)
  from b64 have bpos: "0 \<le> b" by simp
  have "b * e3 \<le> W * (4 / 2 ^ 53)"
    using bW e_bounds(5,6) bpos W by (intro mult_mono) simp_all
  also have "\<dots> = W / 2 ^ 51" by simp
  finally have "b * e3 \<le> W / 2 ^ 51" .
  with x have "\<bar>js_add (js_mul rw (real i)) (js_div rw 2) - b\<bar> \<le> W / 2 ^ 51"
    by linarith
  then show ?thesis unfolding rw_def b_def c_def .
qed

lemma centre_error:
  assumes "1 \<le> W" and "i < 12"
  shows "\<bar>js_add (js_mul (js_div W 12) (real i)) (js_div (js_div W 12) 2)
          - ((W / 12) * real i + W / 24)\<bar> \<le> W / 2 ^ 51"
proof -
  have "(W / 12) * (real i + 1 / 2) = (W / 12) * real i + W / 24"
    by (simp add: algebra_simps)
  with column_error [OF assms] show ?thesis by (simp only:)
qed

lemma spacing_error:
  assumes "1 \<le> W" and "Suc j < 12"
  shows "\<bar>js_add (js_mul (js_div W 12) (real (Suc j))) (js_div (js_div W 12) 2)
          - js_add (js_mul (js_div W 12) (real j)) (js_div (js_div W 12) 2) - W / 12\<bar>
         \<le> W / 2 ^ 50"
proof -
  from assms(2) have j: "j < 12" by simp
  have "(W / 12) * real (Suc j) + W / 24 - ((W / 12) * real j + W / 24) = W / 12"
    by (simp add: algebra_simps)
  moreover have "W / 2 ^ 51 + W / 2 ^ 51 = W / 2 ^ 50" by simp
  ultimately show ?thesis
    using centre_error [OF assms(1) assms(2)] centre_error [OF assms(1) j] by linarith
qed

lemma row_error:
  assumes H: "1 \<le> H" and t: "1 / 64 \<le> t" "t \<le> 1"
  shows "\<bar>js_mul H (fl t) - H * t\<bar> \<le> H * t * e2"
proof -
  have "\<bar>fl t - t\<bar> \<le> t * (0 + (1 + 0) / 2 ^ 53)"
    using t by (intro fl_rel) simp_all
  then have ft: "\<bar>fl t - t\<bar> \<le> t * e1" by (simp add: e1_def)
  from H t(1) have "1 * (1 / 64) \<le> H * t" by (intro mult_mono) simp_all
  then have b: "1 / 64 \<le> H * t" by simp
  have "\<bar>H * fl t - H * t\<bar> = H * \<bar>fl t - t\<bar>"
    using H by (simp add: right_diff_distrib [symmetric] abs_mult)
  also have "\<dots> \<le> H * (t * e1)" using ft H by (intro mult_left_mono) simp_all
  finally have "\<bar>H * fl t - H * t\<bar> \<le> (H * t) * e1" by (simp add: mult_ac)
  from fl_rel [OF b this e_bounds(1,2)] show ?thesis by (simp add: js_mul_def e2_def)
qed

lemma row_error_top:
  assumes "1 \<le> H"
  shows "\<bar>js_mul H (fl (1 / 10)) - 0.1 * H\<bar> \<le> H / 2 ^ 52"
proof -
  have "\<bar>js_mul H (fl (1 / 10)) - H * (1 / 10)\<bar> \<le> H * (1 / 10) * e2"
    using assms by (intro row_error) simp_all
  also have "\<dots> = H * ((1 / 10) * e2)" by simp
  also have "\<dots> \<le> H * (1 / 2 ^ 52)"
    using assms by (intro mult_left_mono) (simp_all add: e2_def e1_def)
  finally have "\<bar>js_mul H (fl (1 / 10)) - H * (1 / 10)\<bar> \<le> H * (1 / 2 ^ 52)" .
  moreover have "H * (1 / 10) = 0.1 * H" and "H * (1 / 2 ^ 52) = H / 2 ^ 52" by simp_all
  ultimately show ?thesis by (simp only:)
qed

lemma row_error_bottom:
  assumes "1 \<le> H"
  shows "\<bar>js_mul H (fl (9 / 10)) - 0.9 * H\<bar> \<le> H / 2 ^ 52"
proof -
  have "\<bar>js_mul H (fl (9 / 10)) - H * (9 / 10)\<bar> \<le> H * (9 / 10) * e2"
    using assms by (intro row_error) simp_all
  also have "\<dots> = H * ((9 / 10) * e2)" by simp
  also have "\<dots> \<le> H * (1 / 2 ^ 52)"
    using assms by (intro mult_left_mono) (simp_all add: e2_def e1_def)
  finally have "\<bar>js_mul H (fl (9 / 10)) - H * (9 / 10)\<bar> \<le> H * (1 / 2 ^ 52)" .
  moreover have "H * (9 / 10) = 0.9 * H" and "H * (1 / 2 ^ 52) = H / 2 ^ 52" by simp_all
  ultimately show ?thesis by (simp only:)
qed

text \<open>
  Claim C1 says that in each row the x-coordinates are the centres
  \<open>(W / 12) * (i - 1) + W / 24\<close> of 12 columns of equal width, so that neighbours in a
  row are exactly \<open>W / 12\<close> apart. The detector computes with doubles:
  \<^verbatim>\<open>regionWidth\<close> is \<open>W / 12\<close> rounded, and the product and the sum are rounded
  again. On a canvas 1280 wide the points 3 and 4 are at 266.66666666666669 and
  373.33333333333331 (the doubles \<open>4691249611844267 / 2^44\<close> and
  \<open>6567749456581973 / 2^44\<close>). Their difference, which is a double and so the same whether
  taken exactly or in doubles, is 106.66666666666663: neither \<open>1280 / 12\<close> nor the
  double next to it, which is \<^verbatim>\<open>regionWidth\<close>, 106.66666666666667. And point 3 is not
  at the centre of its column, \<open>800 / 3\<close>, which is no double.
\<close>

theorem detectBoardRegions_spacing_counterexample:
  "xpos (detectBoardRegions 1280 720 ! 2) = 4691249611844267 / 2 ^ 44 \<and>
   xpos (detectBoardRegions 1280 720 ! 3) = 6567749456581973 / 2 ^ 44 \<and>
   xpos (detectBoardRegions 1280 720 ! 3) - xpos (detectBoardRegions 1280 720 ! 2) \<noteq> 1280 / 12 \<and>
   xpos (detectBoardRegions 1280 720 ! 3) - xpos (detectBoardRegions 1280 720 ! 2)
     \<noteq> js_div 1280 12 \<and>
   fl (xpos (detectBoardRegions 1280 720 ! 3) - xpos (detectBoardRegions 1280 720 ! 2))
     = xpos (detectBoardRegions 1280 720 ! 3) - xpos (detectBoardRegions 1280 720 ! 2) \<and>
   xpos (detectBoardRegions 1280 720 ! 2) \<noteq> (1280 / 12) * 2 + 1280 / 24"
proof -
  have rw: "js_div 1280 12 = 7505999378950827 / 2 ^ 46"
    by (simp add: js_div_def fl_eval)
  have x2: "xpos (detectBoardRegions 1280 720 ! 2) = 4691249611844267 / 2 ^ 44"
    by (simp add: detectBoardRegions_top xpos_top rw)
       (simp add: js_add_def js_mul_def js_div_def fl_eval)
  have x3: "xpos (detectBoardRegions 1280 720 ! 3) = 6567749456581973 / 2 ^ 44"
    by (simp add: detectBoardRegions_top xpos_top rw)
       (simp add: js_add_def js_mul_def js_div_def fl_eval)
  have d: "fl (6567749456581973 / 2 ^ 44 - 4691249611844267 / 2 ^ 44) =
           6567749456581973 / 2 ^ 44 - 4691249611844267 / 2 ^ 44"
    by (simp add: fl_eval)
  show ?thesis unfolding x2 x3 rw d by simp
qed

text \<open>
  Claim C1, amended. For every positive board width \<open>W\<close> and height \<open>H\<close> below
  \<open>2^1000\<close>, \<^verbatim>\<open>detectBoardRegions\<close> returns exactly 24 points, the point with index
  \<open>i\<close> at position \<open>i - 1\<close> of the list. The points 1 to 12 have side top and the y
  that \<^verbatim>\<open>boardHeight * 0.1\<close> is in doubles, the points 13 to 24 have side bottom and
  the y that \<^verbatim>\<open>boardHeight * 0.9\<close> is in doubles. In each row the x of column \<open>i\<close>
  is what \<^verbatim>\<open>regionWidth * (i - 1) + regionWidth / 2\<close> is in doubles, with
  \<^verbatim>\<open>regionWidth\<close> the double \<^verbatim>\<open>boardWidth / 12\<close>; point \<open>i\<close> and point \<open>i + 12\<close>
  have the same x. From a width of 1 on, every x is within \<open>W / 2^51\<close> of the centre
  \<open>(W / 12) * (i - 1) + W / 24\<close> of its column, and neighbours in a row are \<open>W / 12\<close>
  apart up to \<open>W / 2^50\<close>; from a height of 1 on, every y is within \<open>H / 2^52\<close> of
  \<open>0.1 * H\<close> in the top row and of \<open>0.9 * H\<close> in the bottom row. The width of a canvas
  is a whole number, so a positive one is at least 1.
\<close>

theorem detectBoardRegions_partition:
  assumes "0 < W" and "W < 2 ^ 1000" and "0 < H" and "H < 2 ^ 1000"
  shows "length (detectBoardRegions W H) = 24 \<and>
    (\<forall>i. 1 \<le> i \<and> i \<le> 12 \<longrightarrow>
       point (detectBoardRegions W H ! (i - 1)) = i \<and>
       ypos (detectBoardRegions W H ! (i - 1)) = js_mul H (fl (1 / 10)) \<and>
       side (detectBoardRegions W H ! (i - 1)) = Top \<and>
       xpos (detectBoardRegions W H ! (i - 1)) =
         js_add (js_mul (js_div W 12) (real (i - 1))) (js_div (js_div W 12) 2)) \<and>
    (\<forall>i. 13 \<le> i \<and> i \<le> 24 \<longrightarrow>
       point (detectBoardRegions W H ! (i - 1)) = i \<and>
       ypos (detectBoardRegions W H ! (i - 1)) = js_mul H (fl (9 / 10)) \<and>
       side (detectBoardRegions W H ! (i - 1)) = Bottom \<and>
       xpos (detectBoardRegions W H ! (i - 1)) =
         js_add (js_mul (js_div W 12) (real (i - 13))) (js_div (js_div W 12) 2)) \<and>
    (\<forall>i. 1 \<le> i \<and> i \<le> 12 \<longrightarrow>
       xpos (detectBoardRegions W H ! (i + 12 - 1)) = xpos (detectBoardRegions W H ! (i - 1))) \<and>
    (1 \<le> W \<longrightarrow>
       (\<forall>i. 1 \<le> i \<and> i \<le> 12 \<longrightarrow>
          \<bar>xpos (detectBoardRegions W H ! (i - 1)) - ((W / 12) * real (i - 1) + W / 24)\<bar>
            \<le> W / 2 ^ 51) \<and>
       (\<forall>i. (1 \<le> i \<and> i < 12) \<or> (13 \<le> i \<and> i < 24) \<longrightarrow>
          \<bar>xpos (detectBoardRegions W H ! i) - xpos (detectBoardRegions W H ! (i - 1)) - W / 12\<bar>
            \<le> W / 2 ^ 50)) \<and>
    (1 \<le> H \<longrightarrow>
       (\<forall>i. 1 \<le> i \<and> i \<le> 12 \<longrightarrow>
          \<bar>ypos (detectBoardRegions W H ! (i - 1)) - 0.1 * H\<bar> \<le> H / 2 ^ 52) \<and>
       (\<forall>i. 13 \<le> i \<and> i \<le> 24 \<longrightarrow>
          \<bar>ypos (detectBoardRegions W H ! (i - 1)) - 0.9 * H\<bar> \<le> H / 2 ^ 52))"
proof -
  let ?rs = "detectBoardRegions W H"
  let ?rw = "js_div W 12"
  have len: "length ?rs = 24"
    by (simp add: detectBoardRegions_rows)
  have top: "?rs ! (i - 1) = top_region ?rw H (i - 1)" if "1 \<le> i \<and> i \<le> 12" for i
  proof -
    from that have "i - 1 < 12" by arith
    then show ?thesis by (rule detectBoardRegions_top)
  qed
  have bot: "?rs ! (i - 1) = bottom_region ?rw H (i - 13)" if "13 \<le> i \<and> i \<le> 24" for i
  proof -
    from that have "12 \<le> i - 1" and "i - 1 < 24" and "i - 1 - 12 = i - 13" by arith+
    then show ?thesis using detectBoardRegions_bottom [of "i - 1" W H] by simp
  qed
  have a: "\<forall>i. 1 \<le> i \<and> i \<le> 12 \<longrightarrow>
       point (?rs ! (i - 1)) = i \<and>
       ypos (?rs ! (i - 1)) = js_mul H (fl (1 / 10)) \<and>
       side (?rs ! (i - 1)) = Top \<and>
       xpos (?rs ! (i - 1)) = js_add (js_mul ?rw (real (i - 1))) (js_div ?rw 2)"
  proof (intro allI impI)
    fix i :: nat assume i: "1 \<le> i \<and> i \<le> 12"
    show "point (?rs ! (i - 1)) = i \<and>
       ypos (?rs ! (i - 1)) = js_mul H (fl (1 / 10)) \<and>
       side (?rs ! (i - 1)) = Top \<and>
       xpos (?rs ! (i - 1)) = js_add (js_mul ?rw (real (i - 1))) (js_div ?rw 2)"
      unfolding top [OF i] using i by (simp add: top_region_def)
  qed
  have b: "\<forall>i. 13 \<le> i \<and> i \<le> 24 \<longrightarrow>
       point (?rs ! (i - 1)) = i \<and>
       ypos (?rs ! (i - 1)) = js_mul H (fl (9 / 10)) \<and>
       side (?rs ! (i - 1)) = Bottom \<and>
       xpos (?rs ! (i - 1)) = js_add (js_mul ?rw (real (i - 13))) (js_div ?rw 2)"
  proof (intro allI impI)
    fix i :: nat assume i: "13 \<le> i \<and> i \<le> 24"
    show "point (?rs ! (i - 1)) = i \<and>
       ypos (?rs ! (i - 1)) = js_mul H (fl (9 / 10)) \<and>
       side (?rs ! (i - 1)) = Bottom \<and>
       xpos (?rs ! (i - 1)) = js_add (js_mul ?rw (real (i - 13))) (js_div ?rw 2)"
      unfolding bot [OF i] using i by (simp add: bottom_region_def)
  qed
  have c: "\<forall>i. 1 \<le> i \<and> i \<le> 12 \<longrightarrow> xpos (?rs ! (i + 12 - 1)) = xpos (?rs ! (i - 1))"
  proof (intro allI impI)
    fix i :: nat assume i: "1 \<le> i \<and> i \<le> 12"
    then have j: "13 \<le> i + 12 \<and> i + 12 \<le> 24" and k: "i + 12 - 13 = i - 1" by arith+
    show "xpos (?rs ! (i + 12 - 1)) = xpos (?rs ! (i - 1))"
      unfolding bot [OF j] top [OF i] k by (simp add: xpos_top xpos_bottom)
  qed
  have d: "1 \<le> W \<longrightarrow>
       (\<forall>i. 1 \<le> i \<and> i \<le> 12 \<longrightarrow>
          \<bar>xpos (?rs ! (i - 1)) - ((W / 12) * real (i - 1) + W / 24)\<bar> \<le> W / 2 ^ 51) \<and>
       (\<forall>i. (1 \<le> i \<and> i < 12) \<or> (13 \<le> i \<and> i < 24) \<longrightarrow>
          \<bar>xpos (?rs ! i) - xpos (?rs ! (i - 1)) - W / 12\<bar> \<le> W / 2 ^ 50)"
  proof (intro impI conjI allI)
    fix i :: nat assume W: "1 \<le> W" and i: "1 \<le> i \<and> i \<le> 12"
    then have "i - 1 < 12" by arith
    from centre_error [OF W this]
    show "\<bar>xpos (?rs ! (i - 1)) - ((W / 12) * real (i - 1) + W / 24)\<bar> \<le> W / 2 ^ 51"
      unfolding top [OF i] xpos_top .
  next
    fix i :: nat assume W: "1 \<le> W" and i: "(1 \<le> i \<and> i < 12) \<or> (13 \<le> i \<and> i < 24)"
    then obtain j where j: "i = Suc j" and range: "Suc j < 12 \<or> (12 \<le> j \<and> j < 23)"
      by (cases i) auto
    from range
    have "\<bar>xpos (?rs ! Suc j) - xpos (?rs ! j) - W / 12\<bar> \<le> W / 2 ^ 50"
    proof
      assume s: "Suc j < 12"
      then have "?rs ! Suc j = top_region ?rw H (Suc j)" and "?rs ! j = top_region ?rw H j"
        by (simp_all add: detectBoardRegions_top)
      with spacing_error [OF W s] show ?thesis by (simp only: xpos_top)
    next
      assume s: "12 \<le> j \<and> j < 23"
      then have k: "Suc j - 12 = Suc (j - 12)" and l: "Suc (j - 12) < 12" by arith+
      from s have "?rs ! Suc j = bottom_region ?rw H (Suc (j - 12))"
        and "?rs ! j = bottom_region ?rw H (j - 12)"
        using detectBoardRegions_bottom [of "Suc j" W H] detectBoardRegions_bottom [of j W H] k
        by simp_all
      with spacing_error [OF W l] show ?thesis by (simp only: xpos_bottom)
    qed
    then show "\<bar>xpos (?rs ! i) - xpos (?rs ! (i - 1)) - W / 12\<bar> \<le> W / 2 ^ 50"
      using j by simp
  qed
  have e: "1 \<le> H \<longrightarrow>
       (\<forall>i. 1 \<le> i \<and> i \<le> 12 \<longrightarrow> \<bar>ypos (?rs ! (i - 1)) - 0.1 * H\<bar> \<le> H / 2 ^ 52) \<and>
       (\<forall>i. 13 \<le> i \<and> i \<le> 24 \<longrightarrow> \<bar>ypos (?rs ! (i - 1)) - 0.9 * H\<bar> \<le> H / 2 ^ 52)"
  proof (intro impI conjI allI)
    fix i :: nat assume H: "1 \<le> H" and i: "1 \<le> i \<and> i \<le> 12"
    from a i have "ypos (?rs ! (i - 1)) = js_mul H (fl (1 / 10))" by blast
    with row_error_top [OF H] show "\<bar>ypos (?rs ! (i - 1)) - 0.1 * H\<bar> \<le> H / 2 ^ 52"
      by (simp only:)
  next
    fix i :: nat assume H: "1 \<le> H" and i: "13 \<le> i \<and> i \<le> 24"
    from b i have "ypos (?rs ! (i - 1)) = js_mul H (fl (9 / 10))" by blast
    with row_error_bottom [OF H] show "\<bar>ypos (?rs ! (i - 1)) - 0.9 * H\<bar> \<le> H / 2 ^ 52"
      by (simp only:)
  qed
  from len a b c d e show ?thesis by (intro conjI)
qed

text \<open>On a canvas of 1280 by 720: points 3, 4 and 15.\<close>

theorem detectBoardRegions_partition_witness:
  "(0::real) < 1280 \<and> (1280::real) < 2 ^ 1000 \<and> (0::real) < 720 \<and> (720::real) < 2 ^ 1000 \<and>
   length (detectBoardRegions 1280 720) = 24 \<and>
   point (detectBoardRegions 1280 720 ! 2) = 3 \<and>
   ypos (detectBoardRegions 1280 720 ! 2) = 72 \<and>
   side (detectBoardRegions 1280 720 ! 2) = Top \<and>
   xpos (detectBoardRegions 1280 720 ! 2) = 4691249611844267 / 2 ^ 44 \<and>
   point (detectBoardRegions 1280 720 ! 14) = 15 \<and>
   ypos (detectBoardRegions 1280 720 ! 14) = 648 \<and>
   side (detectBoardRegions 1280 720 ! 14) = Bottom \<and>
   xpos (detectBoardRegions 1280 720 ! 14) = xpos (detectBoardRegions 1280 720 ! 2) \<and>
   \<bar>xpos (detectBoardRegions 1280 720 ! 3) - xpos (detectBoardRegions 1280 720 ! 2) - 1280 / 12\<bar>
     \<le> 1280 / 2 ^ 50"
proof -
  have pos: "(0::real) < 1280" "(1280::real) < 2 ^ 1000" "(0::real) < 720" "(720::real) < 2 ^ 1000"
    by simp_all
  note p = detectBoardRegions_partition [OF pos]
  have rw: "js_div 1280 12 = 7505999378950827 / 2 ^ 46"
    by (simp add: js_div_def fl_eval)
  from p have len: "length (detectBoardRegions 1280 720) = 24" by blast
  from p have "1 \<le> (3::nat) \<and> (3::nat) \<le> 12 \<longrightarrow>
       point (detectBoardRegions 1280 720 ! (3 - 1)) = 3 \<and>
       ypos (detectBoardRegions 1280 720 ! (3 - 1)) = js_mul 720 (fl (1 / 10)) \<and>
       side (detectBoardRegions 1280 720 ! (3 - 1)) = Top \<and>
       xpos (detectBoardRegions 1280 720 ! (3 - 1)) =
         js_add (js_mul (js_div 1280 12) (real (3 - 1))) (js_div (js_div 1280 12) 2)"
    by blast
  then have top: "point (detectBoardRegions 1280 720 ! 2) = 3 \<and>
       ypos (detectBoardRegions 1280 720 ! 2) = 72 \<and>
       side (detectBoardRegions 1280 720 ! 2) = Top \<and>
       xpos (detectBoardRegions 1280 720 ! 2) = 4691249611844267 / 2 ^ 44"
    unfolding rw by (simp add: js_add_def js_mul_def js_div_def fl_eval)
  from p have "13 \<le> (15::nat) \<and> (15::nat) \<le> 24 \<longrightarrow>
       point (detectBoardRegions 1280 720 ! (15 - 1)) = 15 \<and>
       ypos (detectBoardRegions 1280 720 ! (15 - 1)) = js_mul 720 (fl (9 / 10)) \<and>
       side (detectBoardRegions 1280 720 ! (15 - 1)) = Bottom \<and>
       xpos (detectBoardRegions 1280 720 ! (15 - 1)) =
         js_add (js_mul (js_div 1280 12) (real (15 - 13))) (js_div (js_div 1280 12) 2)"
    by blast
  then have bot: "point (detectBoardRegions 1280 720 ! 14) = 15 \<and>
       ypos (detectBoardRegions 1280 720 ! 14) = 648 \<and>
       side (detectBoardRegions 1280 720 ! 14) = Bottom"
    by (simp add: js_mul_def fl_eval)
  from p have "1 \<le> (3::nat) \<and> (3::nat) \<le> 12 \<longrightarrow>
       xpos (detectBoardRegions 1280 720 ! (3 + 12 - 1)) = xpos (detectBoardRegions 1280 720 ! (3 - 1))"
    by blast
  then have same: "xpos (detectBoardRegions 1280 720 ! 14) = xpos (detectBoardRegions 1280 720 ! 2)"
    by simp
  from p have "(1::real) \<le> 1280 \<longrightarrow>
       ((1 \<le> (3::nat) \<and> (3::nat) < 12) \<or> (13 \<le> (3::nat) \<and> (3::nat) < 24) \<longrightarrow>
          \<bar>xpos (detectBoardRegions 1280 720 ! 3) - xpos (detectBoardRegions 1280 720 ! (3 - 1))
            - 1280 / 12\<bar> \<le> 1280 / 2 ^ 50)"
    by blast
  then have step: "\<bar>xpos (detectBoardRegions 1280 720 ! 3) - xpos (detectBoardRegions 1280 720 ! 2)
            - 1280 / 12\<bar> \<le> 1280 / 2 ^ 50"
    by simp
  from pos len top bot same step show ?thesis by (intro conjI) simp_all
qed

subsection \<open>Placeholders\<close>

lemma pips_range:
  assumes d: "is_double r" and r0: "0 \<le> r" and r1: "r < 1"
  shows "1 \<le> detectDicePips r centerX centerY diceRadius \<and>
         detectDicePips r centerX centerY diceRadius \<le> 6"
proof -
  let ?x = "r * 6"
  have nonneg: "0 \<le> fl ?x" using r0 by (intro fl_nonneg) simp
  have upper: "fl ?x < 6"
  proof (cases "?x < 4")
    case True
    show ?thesis
    proof (cases "?x = 0")
      case True
      then show ?thesis by (simp add: fl_def)
    next
      case False
      with r0 have pos: "0 < \<bar>?x\<bar>" by simp
      have "\<bar>?x\<bar> < pow2 2" using True r0 by (simp add: pow2_def)
      from expo_less [OF pos this] have "max (expo \<bar>?x\<bar>) (- 1022) - 52 \<le> - 51" by simp
      then have "ulp ?x \<le> pow2 (- 51)" unfolding ulp_def by (rule pow2_mono)
      also have "pow2 (- 51) \<le> 1" by (simp add: pow2_def)
      finally have "ulp ?x \<le> 1" .
      with fl_error [of ?x] True show ?thesis by linarith
    qed
  next
    case False
    then have x4: "4 \<le> ?x" by simp
    from r1 have x6: "?x < 6" by simp
    from x4 have rhalf: "1 / 2 \<le> r" by simp
    have ur: "ulp r = pow2 (- 1 - 52)"
      using rhalf r1 by (intro ulp_binade) (simp_all add: pow2_def)
    then have ur': "ulp r = 1 / 2 ^ 53" by (simp add: pow2_def)
    from d rhalf have "of_int (rhe (r / ulp r)) * ulp r = r"
      by (simp add: is_double_def fl_def)
    then obtain m :: int where m: "r = of_int m / 2 ^ 53"
      unfolding ur' by (metis times_divide_eq_right mult.right_neutral)
    with r1 have "real_of_int m < 2 ^ 53" by (simp add: field_simps)
    then have "m < 2 ^ 53" by (metis of_int_less_iff of_int_numeral of_int_power)
    then have mle: "m \<le> 2 ^ 53 - 1" by simp
    have ux: "ulp ?x = pow2 (2 - 52)"
      using x4 x6 by (intro ulp_binade) (simp_all add: pow2_def)
    then have ux': "ulp ?x = 1 / 2 ^ 50" by (simp add: pow2_def)
    have "?x / ulp ?x = ?x * 2 ^ 50" unfolding ux' by simp
    also have "\<dots> = of_int (3 * m) / 4" unfolding m by simp
    finally have q: "?x / ulp ?x = of_int (3 * m) / 4" .
    have "of_int (rhe (?x / ulp ?x)) \<le> ?x / ulp ?x + 1 / 2"
      using rhe_error [of "?x / ulp ?x"] by linarith
    also have "\<dots> = (of_int (3 * m) + 2) / 4" unfolding q by (simp add: field_simps)
    also have "\<dots> \<le> (of_int (3 * (2 ^ 53 - 1)) + 2) / 4"
      using mle by (intro divide_right_mono add_right_mono) (simp_all only: of_int_le_iff, simp_all)
    also have "\<dots> < of_int (3 * 2 ^ 51)" by simp
    finally have "rhe (?x / ulp ?x) < 3 * 2 ^ 51" by (simp only: of_int_less_iff)
    then have "rhe (?x / ulp ?x) \<le> 3 * 2 ^ 51 - 1" by simp
    then have "real_of_int (rhe (?x / ulp ?x)) \<le> of_int (3 * 2 ^ 51 - 1)"
      by (simp only: of_int_le_iff)
    then have "real_of_int (rhe (?x / ulp ?x)) * ulp ?x \<le> of_int (3 * 2 ^ 51 - 1) * ulp ?x"
      by (intro mult_right_mono) (simp_all add: less_imp_le)
    also have "\<dots> < 6" unfolding ux' by simp
    finally show ?thesis using x4 by (simp add: fl_def)
  qed
  from nonneg have "0 \<le> \<lfloor>fl ?x\<rfloor>" by simp
  moreover from upper have "\<lfloor>fl ?x\<rfloor> < 6" by (simp add: floor_less_iff)
  ultimately show ?thesis by (simp add: detectDicePips_def js_mul_def)
qed

lemma pips_faces:
  "is_double 0 \<and> detectDicePips 0 centerX centerY diceRadius = 1"
  "is_double (1 / 4) \<and> detectDicePips (1 / 4) centerX centerY diceRadius = 2"
  "is_double (3 / 8) \<and> detectDicePips (3 / 8) centerX centerY diceRadius = 3"
  "is_double (1 / 2) \<and> detectDicePips (1 / 2) centerX centerY diceRadius = 4"
  "is_double (3 / 4) \<and> detectDicePips (3 / 4) centerX centerY diceRadius = 5"
  "is_double (7 / 8) \<and> detectDicePips (7 / 8) centerX centerY diceRadius = 6"
  by (simp_all add: is_double_def detectDicePips_def js_mul_def fl_eval)

text \<open>
  Claim C8. \<^verbatim>\<open>detectCubeValue\<close> returns 1 for every position. \<^verbatim>\<open>detectDicePips\<close>
  returns an integer from 1 to 6 for every value \<^verbatim>\<open>Math.random()\<close> can return (a double,
  at least 0 and below 1); each of the six numbers is returned for some such value; and
  the result depends on that value alone, not on the centre or the radius of the die.
\<close>

theorem placeholders_cube_pips:
  "detectCubeValue x y = 1 \<and>
   (is_double random \<and> 0 \<le> random \<and> random < 1 \<longrightarrow>
      1 \<le> detectDicePips random centerX centerY diceRadius \<and>
      detectDicePips random centerX centerY diceRadius \<le> 6) \<and>
   (\<forall>n. 1 \<le> n \<and> n \<le> 6 \<longrightarrow>
      (\<exists>r. is_double r \<and> 0 \<le> r \<and> r < 1 \<and>
           detectDicePips r centerX centerY diceRadius = n)) \<and>
   detectDicePips random centerX centerY diceRadius =
     detectDicePips random centerX' centerY' diceRadius'"
proof (intro conjI impI allI)
  show "detectCubeValue x y = 1" by (simp add: detectCubeValue_def)
next
  assume r: "is_double random \<and> 0 \<le> random \<and> random < 1"
  then have "1 \<le> detectDicePips random centerX centerY diceRadius \<and>
         detectDicePips random centerX centerY diceRadius \<le> 6"
    by (intro pips_range) simp_all
  then show "1 \<le> detectDicePips random centerX centerY diceRadius"
    and "detectDicePips random centerX centerY diceRadius \<le> 6" by simp_all
next
  fix n :: int assume "1 \<le> n \<and> n \<le> 6"
  then consider "n = 1" | "n = 2" | "n = 3" | "n = 4" | "n = 5" | "n = 6" by linarith
  then show "\<exists>r. is_double r \<and> 0 \<le> r \<and> r < 1 \<and>
           detectDicePips r centerX centerY diceRadius = n"
  proof cases
    case 1
    with pips_faces(1) [of centerX centerY diceRadius] show ?thesis
      by (intro exI [of _ 0]) simp
  next
    case 2
    with pips_faces(2) [of centerX centerY diceRadius] show ?thesis
      by (intro exI [of _ "1 / 4"]) simp
  next
    case 3
    with pips_faces(3) [of centerX centerY diceRadius] show ?thesis
      by (intro exI [of _ "3 / 8"]) simp
  next
    case 4
    with pips_faces(4) [of centerX centerY diceRadius] show ?thesis
      by (intro exI [of _ "1 / 2"]) simp
  next
    case 5
    with pips_faces(5) [of centerX centerY diceRadius] show ?thesis
      by (intro exI [of _ "3 / 4"]) simp
  next
    case 6
    with pips_faces(6) [of centerX centerY diceRadius] show ?thesis
      by (intro exI [of _ "7 / 8"]) simp
  qed
next
  show "detectDicePips random centerX centerY diceRadius =
     detectDicePips random centerX' centerY' diceRadius'"
    by (simp add: detectDicePips_def)
qed

text \<open>
  The draw 0.6666666666666666 (the double \<open>6004799503160661 / 2^53\<close>): six times it is
  3.9999999999999996, which is no double; the product in doubles is 4, and the pip count 5.
\<close>

theorem placeholders_cube_pips_witness:
  "is_double (6004799503160661 / 2 ^ 53) \<and>
   (0::real) \<le> 6004799503160661 / 2 ^ 53 \<and> (6004799503160661 / 2 ^ 53 :: real) < 1 \<and>
   detectCubeValue (50::real) (300::real) = 1 \<and>
   detectDicePips (6004799503160661 / 2 ^ 53) (150::real) (200::real) (12::real) = 5 \<and>
   (\<exists>r. is_double r \<and> 0 \<le> r \<and> r < 1 \<and> detectDicePips r (150::real) (200::real) (12::real) = 2)"
proof -
  let ?r = "6004799503160661 / 2 ^ 53 :: real"
  note p = placeholders_cube_pips [of "50::real" "300::real" ?r "150::real" "200::real" "12::real"
      "150::real" "200::real" "12::real"]
  have d: "is_double ?r \<and> 0 \<le> ?r \<and> ?r < 1"
    by (simp add: is_double_def fl_eval)
  from p have cube: "detectCubeValue (50::real) (300::real) = 1" by blast
  have five: "detectDicePips ?r (150::real) (200::real) (12::real) = 5"
    by (simp add: detectDicePips_def js_mul_def fl_eval)
  from p have "1 \<le> (2::int) \<and> (2::int) \<le> 6 \<longrightarrow>
      (\<exists>r. is_double r \<and> 0 \<le> r \<and> r < 1 \<and>
           detectDicePips r (150::real) (200::real) (12::real) = 2)"
    by blast
  then have two: "\<exists>r. is_double r \<and> 0 \<le> r \<and> r < 1 \<and>
           detectDicePips r (150::real) (200::real) (12::real) = 2"
    by simp
  from d cube five two show ?thesis by (intro conjI) simp_all
qed

subsection \<open>Dice by order of detection\<close>

lemma dice_loop_step:
  "i < rows m \<Longrightarrow>
   dice_loop w h m rnd i k dice =
     (if passes w h m i
      then dice_loop w h m rnd (i + 1) (k + 1) (dice @ [die_of m i (rnd k)])
      else dice_loop w h m rnd (i + 1) k dice)"
  by (subst dice_loop.simps) (simp add: passes_def die_of_def Let_def)

lemma dice_loop_filter:
  "i \<le> rows m \<Longrightarrow>
   dice_loop w h m rnd i k dice = dice @ dice_from m rnd k (filter (passes w h m) [i..<rows m])"
proof (induction w h m rnd i k dice rule: dice_loop.induct)
  case (1 w h m rnd i k dice)
  show ?case
  proof (cases "i < rows m")
    case False
    with "1.prems" have "i = rows m" by simp
    then show ?thesis by (subst dice_loop.simps) simp
  next
    case less: True
    then have upt: "[i..<rows m] = i # [i + 1..<rows m]"
      by (simp add: upt_conv_Cons)
    show ?thesis
    proof (cases "passes w h m i")
      case True
      have "dice_loop w h m rnd (i + 1) (k + 1) (dice @ [die_of m i (rnd k)]) =
              (dice @ [die_of m i (rnd k)]) @
              dice_from m rnd (k + 1) (filter (passes w h m) [i + 1..<rows m])"
        using "1.IH" True less
        unfolding passes_def die_of_def by simp
      then show ?thesis using True less by (simp add: dice_loop_step upt)
    next
      case False
      have "dice_loop w h m rnd (i + 1) k dice =
              dice @ dice_from m rnd k (filter (passes w h m) [i + 1..<rows m])"
        using "1.IH" False less
        unfolding passes_def by simp
      then show ?thesis using False less by (simp add: dice_loop_step upt)
    qed
  qed
qed

lemma detectDice_detected:
  "detectDice w h m rnd =
     \<lparr>red = or_null (dice_from m rnd 0 (detected w h m)) 0,
      white = or_null (dice_from m rnd 0 (detected w h m)) 1\<rparr>"
  by (simp add: detectDice_def detected_def dice_loop_filter Let_def)

text \<open>
  Claim C10. \<^verbatim>\<open>detectDice\<close> gives the colours by order of detection alone: the first
  row of the matrix that passes the test is the red die, the second one the white die, and
  null stands where there is none. When exactly one row passes, it is the red die and the
  white die is null.
\<close>

theorem detectDice_by_order:
  "red (detectDice w h m rnd) =
     (case detected w h m of [] \<Rightarrow> None | i # rest \<Rightarrow> Some (die_of m i (rnd 0))) \<and>
   white (detectDice w h m rnd) =
     (case detected w h m of i # j # rest \<Rightarrow> Some (die_of m j (rnd 1)) | _ \<Rightarrow> None) \<and>
   (length (detected w h m) = 1 \<longrightarrow>
      red (detectDice w h m rnd) = Some (die_of m (hd (detected w h m)) (rnd 0)) \<and>
      white (detectDice w h m rnd) = None)"
proof -
  show ?thesis
  proof (cases "detected w h m")
    case Nil
    then show ?thesis by (simp add: detectDice_detected or_null_def)
  next
    case (Cons i rest)
    then show ?thesis
      by (cases rest) (simp_all add: detectDice_detected or_null_def)
  qed
qed

text \<open>One circle of two on the canvas: it is the red die.\<close>

theorem detectDice_by_order_witness:
  "length (detected 640 480 one_circle) = 1 \<and>
   red (detectDice 640 480 one_circle (\<lambda>k. 7 / 8)) =
     Some \<lparr>die_x = Some 170, die_y = Some 200, die_radius = Some 10, die_pips = 6\<rparr> \<and>
   white (detectDice 640 480 one_circle (\<lambda>k. 7 / 8)) = None"
proof -
  have d: "detected 640 480 one_circle = [1]"
    by (simp add: detected_def one_circle_def passes_def at32F_def gt_def lt_def upt_conv_Cons)
  have "detectDicePips (7 / 8) (Some (170::real)) (Some (200::real)) (Some (10::real)) = 6"
    by (simp add: detectDicePips_def js_mul_def fl_eval)
  then have "die_of one_circle 1 (7 / 8) =
          \<lparr>die_x = Some 170, die_y = Some 200, die_radius = Some 10, die_pips = 6\<rparr>"
    by (simp add: die_of_def one_circle_def at32F_def)
  with d detectDice_by_order [of 640 480 one_circle "\<lambda>k. 7 / 8"] show ?thesis
    by simp
qed

section \<open>Properties of the log endpoint\<close>

declare digits.simps [simp del]

subsection \<open>The lines in closed form\<close>

lemma andthen_Inl [simp]: "andthen (Inl e) f = Inl e"
  by (simp add: andthen_def)

lemma andthen_Inr [simp]: "andthen (Inr v) f = f v"
  by (simp add: andthen_def)

lemma lookup_JNull [simp]: "lookup JNull k = JNull"
  by simp

lemma isset_is_obj: "isset v k \<Longrightarrow> \<exists>kvs. v = JObj kvs"
  by (cases v) (simp_all add: isset_def)

lemma isset_offset: "isset v k \<Longrightarrow> offset v k = Inr (lookup v k)"
  by (cases v) (simp_all add: isset_def)

lemma offset_not_string: "\<not> is_string v \<Longrightarrow> offset v k = Inr (lookup v k)"
  by (cases v) simp_all

lemma isset_lookup_isset: "isset (lookup v k) j \<Longrightarrow> isset v k"
  by (auto simp: isset_def)

lemma is_array_isset: "is_array (lookup v k) \<Longrightarrow> isset v k"
  by (auto simp: isset_def)

lemma is_array_count:
  "is_array v \<Longrightarrow> count_php v = Inr (length (elements v))"
  by (cases v) simp_all

lemma roundable_text:
  "roundable rt v \<Longrightarrow> \<exists>r. round_php rt v = Inr r \<and> to_str rt r = rounded_text rt v"
  by (cases v) (auto simp: rounded_text_def)

lemma checker_coord_ok:
  "roundable rt (lookup c k) \<Longrightarrow>
   \<exists>r. checker_coord rt c k = Inr r \<and>
       to_str rt r = (if isset c k then rounded_text rt (lookup c k) else ''0'')"
proof (cases "isset c k")
  case True
  assume "roundable rt (lookup c k)"
  from roundable_text [OF this] True show ?thesis
    by (auto simp: checker_coord_def isset_offset)
next
  case False
  then show ?thesis
    by (simp add: checker_coord_def int_str_def digits.simps)
qed

lemma checkers_loop_ok:
  "list_all (checker_ok rt) cs \<Longrightarrow>
   checkers_loop rt cs acc = Inr (acc @ map (checker_text rt) cs)"
proof (induction cs arbitrary: acc)
  case Nil
  then show ?case by simp
next
  case (Cons c cs)
  then have c: "checker_ok rt c" and rest: "list_all (checker_ok rt) cs"
    by simp_all
  from c have ok: "roundable rt (lookup c ''x'')" "roundable rt (lookup c ''y'')"
    by (simp_all add: checker_ok_def)
  from checker_coord_ok [OF ok(1)] obtain x where
    x: "checker_coord rt c ''x'' = Inr x"
       "to_str rt x = (if isset c ''x'' then rounded_text rt (lookup c ''x'') else ''0'')"
    by blast
  from checker_coord_ok [OF ok(2)] obtain y where
    y: "checker_coord rt c ''y'' = Inr y"
       "to_str rt y = (if isset c ''y'' then rounded_text rt (lookup c ''y'') else ''0'')"
    by blast
  show ?case
    using Cons.IH [OF rest] x y by (simp add: checker_text_def)
qed

lemma log_checkers_ok:
  "list_all (checker_ok rt) (elements (lookup gs ''checkers'')) \<Longrightarrow>
   log_checkers rt ts gs acc = Inr (acc @ checkers_part rt ts gs)"
  by (simp add: log_checkers_def checkers_part_def is_array_count is_array_isset checkers_loop_ok)

lemma die_line_ok:
  "die_ok rt d \<Longrightarrow> die_line rt colour d acc = Inr (acc @ [die_text rt colour d])"
proof -
  assume ok: "die_ok rt d"
  then have off: "offset d ''x'' = Inr (lookup d ''x'')" "offset d ''y'' = Inr (lookup d ''y'')"
    by (simp_all add: die_ok_def offset_not_string)
  from ok obtain x where x: "round_php rt (lookup d ''x'') = Inr x"
      "to_str rt x = rounded_text rt (lookup d ''x'')"
    using roundable_text [of rt "lookup d ''x''"] by (auto simp: die_ok_def)
  from ok obtain y where y: "round_php rt (lookup d ''y'') = Inr y"
      "to_str rt y = rounded_text rt (lookup d ''y'')"
    using roundable_text [of rt "lookup d ''y''"] by (auto simp: die_ok_def)
  show ?thesis
    by (simp add: die_line_def off x y die_text_def)
qed

lemma log_dice_ok:
  "die_ok rt (lookup (lookup gs ''dice'') ''red'') \<Longrightarrow>
   die_ok rt (lookup (lookup gs ''dice'') ''white'') \<Longrightarrow>
   log_dice rt ts gs acc = Inr (acc @ dice_part rt ts gs)"
  by (simp add: log_dice_def dice_part_def die_line_ok Let_def)

lemma log_cube_ok:
  assumes "isset (lookup gs ''cube'') ''x'' \<Longrightarrow>
             roundable rt (lookup (lookup gs ''cube'') ''x'') \<and>
             roundable rt (lookup (lookup gs ''cube'') ''y'')"
  shows "log_cube rt ts gs acc = Inr (acc @ cube_part rt ts gs)"
proof (cases "isset (lookup gs ''cube'') ''x''")
  case False
  then show ?thesis by (simp add: log_cube_def cube_part_def)
next
  case True
  then obtain kvs where obj: "lookup gs ''cube'' = JObj kvs"
    using isset_is_obj by blast
  have off: "offset (lookup gs ''cube'') ''x'' = Inr (lookup (lookup gs ''cube'') ''x'')"
      "offset (lookup gs ''cube'') ''y'' = Inr (lookup (lookup gs ''cube'') ''y'')"
    by (simp_all add: obj)
  from assms True obtain x where x: "round_php rt (lookup (lookup gs ''cube'') ''x'') = Inr x"
      "to_str rt x = rounded_text rt (lookup (lookup gs ''cube'') ''x'')"
    using roundable_text [of rt "lookup (lookup gs ''cube'') ''x''"] by auto
  from assms True obtain y where y: "round_php rt (lookup (lookup gs ''cube'') ''y'') = Inr y"
      "to_str rt y = rounded_text rt (lookup (lookup gs ''cube'') ''y'')"
    using roundable_text [of rt "lookup (lookup gs ''cube'') ''y''"] by auto
  from True have "isset gs ''cube''" by (rule isset_lookup_isset)
  with True show ?thesis
    by (simp add: log_cube_def cube_part_def Let_def off x y)
qed

lemma log_entries_ok:
  assumes "snapshot_ok rt gs"
  shows "log_entries rt ts gs =
           Inr (checkers_part rt ts gs @ dice_part rt ts gs @ cube_part rt ts gs @ [nl])"
proof -
  from assms have c: "list_all (checker_ok rt) (elements (lookup gs ''checkers''))"
    and r: "die_ok rt (lookup (lookup gs ''dice'') ''red'')"
    and w: "die_ok rt (lookup (lookup gs ''dice'') ''white'')"
    and q: "isset (lookup gs ''cube'') ''x'' \<Longrightarrow>
             roundable rt (lookup (lookup gs ''cube'') ''x'') \<and>
             roundable rt (lookup (lookup gs ''cube'') ''y'')"
    by (simp_all add: snapshot_ok_def)
  show ?thesis
    by (simp add: log_entries_def log_checkers_ok [OF c] log_dice_ok [OF r w] log_cube_ok [OF q])
qed

lemma save_move_accepted:
  assumes "accepted rt req"
  shows "save_move rt srv req moves =
     (case log_entries rt (clock srv) (lookup (json_decode rt (input req)) ''gameState'') of
        Inl e \<Rightarrow> (Uncaught e, moves)
      | Inr es \<Rightarrow>
          if es \<noteq> [] \<and> writable srv
          then (Responded \<lparr>status = 200, body = Success (length es) (clock srv)\<rparr>,
                moves @ concat es)
          else (Responded \<lparr>status = 500,
                  body = ServerError ''Server error'' ''Failed to write to log file''\<rparr>, moves))"
  using assms
  by (auto simp: accepted_def save_move_def Let_def file_put_contents_def split: sum.splits)

lemma save_move_ok:
  assumes "accepted rt req" and "snapshot_ok rt (game_state rt req)"
  shows "save_move rt srv req moves =
     (if writable srv
      then (Responded \<lparr>status = 200,
              body = Success (length (checkers_part rt (clock srv) (game_state rt req)
                                      @ dice_part rt (clock srv) (game_state rt req)
                                      @ cube_part rt (clock srv) (game_state rt req) @ [nl]))
                       (clock srv)\<rparr>,
            moves @ concat (checkers_part rt (clock srv) (game_state rt req)
                            @ dice_part rt (clock srv) (game_state rt req)
                            @ cube_part rt (clock srv) (game_state rt req) @ [nl]))
      else (Responded \<lparr>status = 500,
              body = ServerError ''Server error'' ''Failed to write to log file''\<rparr>, moves))"
  unfolding save_move_accepted [OF assms(1)]
  using log_entries_ok [OF assms(2), of "clock srv"]
  by (simp add: game_state_def)

subsection \<open>When the script dies of a TypeError\<close>

text \<open>
  The game states of \<open>snapshot_ok\<close> are exactly those the script turns into lines;
  on every other one a TypeError ends it before anything is written.
\<close>

lemma round_php_error: "\<not> roundable rt v \<Longrightarrow> round_php rt v = Inl TypeError"
  by (cases v) (auto split: option.splits)

lemma not_roundable_isset: "\<not> roundable rt (lookup c k) \<Longrightarrow> isset c k"
  by (cases "lookup c k") (auto simp: isset_def)

lemma checker_coord_error:
  "\<not> roundable rt (lookup c k) \<Longrightarrow> checker_coord rt c k = Inl TypeError"
  by (simp add: checker_coord_def not_roundable_isset isset_offset round_php_error)

lemma checkers_loop_error:
  "\<not> list_all (checker_ok rt) cs \<Longrightarrow> checkers_loop rt cs acc = Inl TypeError"
proof (induction cs arbitrary: acc)
  case Nil
  then show ?case by simp
next
  case (Cons c cs)
  show ?case
  proof (cases "checker_ok rt c")
    case True
    with Cons.prems have rest: "\<not> list_all (checker_ok rt) cs" by simp
    from True have "roundable rt (lookup c ''x'')" "roundable rt (lookup c ''y'')"
      by (simp_all add: checker_ok_def)
    then obtain x y where "checker_coord rt c ''x'' = Inr x" "checker_coord rt c ''y'' = Inr y"
      using checker_coord_ok by blast
    then show ?thesis using Cons.IH [OF rest] by simp
  next
    case False
    then consider "\<not> roundable rt (lookup c ''x'')"
      | "roundable rt (lookup c ''x'')" "\<not> roundable rt (lookup c ''y'')"
      by (auto simp: checker_ok_def)
    then show ?thesis
    proof cases
      case 1
      then show ?thesis by (simp add: checker_coord_error)
    next
      case 2
      from 2(1) obtain x where "checker_coord rt c ''x'' = Inr x"
        using checker_coord_ok by blast
      with 2(2) show ?thesis by (simp add: checker_coord_error)
    qed
  qed
qed

lemma not_all_is_array:
  "\<not> list_all P (elements v) \<Longrightarrow> is_array v"
  by (cases v) simp_all

lemma log_checkers_error:
  "\<not> list_all (checker_ok rt) (elements (lookup gs ''checkers'')) \<Longrightarrow>
   log_checkers rt ts gs acc = Inl TypeError"
proof -
  assume bad: "\<not> list_all (checker_ok rt) (elements (lookup gs ''checkers''))"
  then have arr: "is_array (lookup gs ''checkers'')" by (rule not_all_is_array)
  then have "isset gs ''checkers''" by (rule is_array_isset)
  with arr bad show ?thesis
    by (simp add: log_checkers_def is_array_count checkers_loop_error)
qed

lemma die_line_error:
  "\<not> die_ok rt d \<Longrightarrow> die_line rt colour d acc = Inl TypeError"
proof (cases "is_string d")
  case True
  then obtain s where "d = JStr s" by (cases d) simp_all
  then show ?thesis by (simp add: die_line_def)
next
  case False
  assume "\<not> die_ok rt d"
  with False consider "\<not> roundable rt (lookup d ''x'')"
    | "roundable rt (lookup d ''x'')" "\<not> roundable rt (lookup d ''y'')"
    by (auto simp: die_ok_def)
  then show ?thesis
  proof cases
    case 1
    with False show ?thesis
      by (simp add: die_line_def offset_not_string round_php_error)
  next
    case 2
    from 2(1) obtain x where "round_php rt (lookup d ''x'') = Inr x"
      using roundable_text by blast
    with 2(2) False show ?thesis
      by (simp add: die_line_def offset_not_string round_php_error)
  qed
qed

lemma not_die_ok_isset: "\<not> die_ok rt (lookup v k) \<Longrightarrow> isset v k"
  by (cases "lookup v k") (auto simp: isset_def die_ok_def)

lemma log_dice_error:
  assumes "\<not> die_ok rt (lookup (lookup gs ''dice'') ''red'') \<or>
           \<not> die_ok rt (lookup (lookup gs ''dice'') ''white'')"
  shows "log_dice rt ts gs acc = Inl TypeError"
proof (cases "die_ok rt (lookup (lookup gs ''dice'') ''red'')")
  case False
  then have r: "isset (lookup gs ''dice'') ''red''" by (rule not_die_ok_isset)
  then have "isset gs ''dice''" by (rule isset_lookup_isset)
  with r False show ?thesis
    by (simp add: log_dice_def Let_def die_line_error)
next
  case True
  with assms have bad: "\<not> die_ok rt (lookup (lookup gs ''dice'') ''white'')" by simp
  then have w: "isset (lookup gs ''dice'') ''white''" by (rule not_die_ok_isset)
  then have "isset gs ''dice''" by (rule isset_lookup_isset)
  with w bad True show ?thesis
    by (simp add: log_dice_def Let_def die_line_error die_line_ok)
qed

lemma log_cube_error:
  assumes "isset (lookup gs ''cube'') ''x''"
    and "\<not> (roundable rt (lookup (lookup gs ''cube'') ''x'') \<and>
            roundable rt (lookup (lookup gs ''cube'') ''y''))"
  shows "log_cube rt ts gs acc = Inl TypeError"
proof -
  from assms(1) have c: "isset gs ''cube''" by (rule isset_lookup_isset)
  from assms(1) have ns: "\<not> is_string (lookup gs ''cube'')"
    using isset_is_obj by fastforce
  from assms(2) consider "\<not> roundable rt (lookup (lookup gs ''cube'') ''x'')"
    | "roundable rt (lookup (lookup gs ''cube'') ''x'')"
      "\<not> roundable rt (lookup (lookup gs ''cube'') ''y'')"
    by auto
  then show ?thesis
  proof cases
    case 1
    with assms(1) c ns show ?thesis
      by (simp add: log_cube_def Let_def offset_not_string round_php_error)
  next
    case 2
    from 2(1) obtain x where "round_php rt (lookup (lookup gs ''cube'') ''x'') = Inr x"
      using roundable_text by blast
    with 2(2) assms(1) c ns show ?thesis
      by (simp add: log_cube_def Let_def offset_not_string round_php_error)
  qed
qed

lemma log_entries_error:
  assumes "\<not> snapshot_ok rt gs"
  shows "log_entries rt ts gs = Inl TypeError"
proof (cases "list_all (checker_ok rt) (elements (lookup gs ''checkers''))")
  case False
  then show ?thesis by (simp add: log_entries_def log_checkers_error)
next
  case c: True
  show ?thesis
  proof (cases "die_ok rt (lookup (lookup gs ''dice'') ''red'') \<and>
                die_ok rt (lookup (lookup gs ''dice'') ''white'')")
    case False
    then have "\<not> die_ok rt (lookup (lookup gs ''dice'') ''red'') \<or>
           \<not> die_ok rt (lookup (lookup gs ''dice'') ''white'')" by simp
    then show ?thesis
      by (simp add: log_entries_def log_checkers_ok [OF c] log_dice_error)
  next
    case d: True
    with c assms have q: "isset (lookup gs ''cube'') ''x''"
      "\<not> (roundable rt (lookup (lookup gs ''cube'') ''x'') \<and>
            roundable rt (lookup (lookup gs ''cube'') ''y''))"
      by (auto simp: snapshot_ok_def split: if_splits)
    from d show ?thesis
      by (simp add: log_entries_def log_checkers_ok [OF c] log_dice_ok log_cube_error [OF q])
  qed
qed

lemma snapshot_ok_iff: "snapshot_ok rt gs = (\<exists>es. log_entries rt ts gs = Inr es)"
proof (cases "snapshot_ok rt gs")
  case True
  then show ?thesis using log_entries_ok [of rt gs ts] by simp
next
  case False
  then show ?thesis using log_entries_error [of rt gs ts] by simp
qed

lemma save_move_uncaught:
  assumes "accepted rt req"
  shows "(fst (save_move rt srv req moves) = Uncaught TypeError) = (\<not> snapshot_ok rt (game_state rt req))"
proof (cases "snapshot_ok rt (game_state rt req)")
  case True
  then show ?thesis by (simp add: save_move_ok [OF assms])
next
  case False
  then show ?thesis
    unfolding save_move_accepted [OF assms]
    using log_entries_error [OF False, of "clock srv"] by (simp add: game_state_def)
qed

subsection \<open>Evaluating the examples\<close>

lemmas eval_defs =
  log_entries_def log_checkers_def log_dice_def log_cube_def die_line_def checker_coord_def
  isset_def int_str_def digits.simps round_helper_def settled_def nl_def Let_def

lemma example_ok: "snapshot_ok example_php example_state"
  by (simp add: snapshot_ok_def example_state_def checker_ok_def die_ok_def isset_def)

lemma example_entries:
  "log_entries example_php ''2025-10-26 15:22:41'' example_state =
     Inr [''[2025-10-26 15:22:41] === CHECKERS === (2 found)'' @ nl,
          ''  - Checker at position (x:120, y:340)'' @ nl,
          ''  - Checker at position (x:180, y:290)'' @ nl,
          ''[2025-10-26 15:22:41] === DICE ==='' @ nl,
          ''  - Red Die: ? pips at (x:150, y:200)'' @ nl,
          ''[2025-10-26 15:22:41] === DOUBLING CUBE ==='' @ nl,
          ''  - Cube at (x:50, y:300), value: ?'' @ nl,
          nl]"
  by (simp add: example_state_def example_php_def eval_defs)

lemma bare_entries:
  "log_entries rt ts bare_state = Inr [''['' @ ts @ ''] === CHECKERS === (0 found)'' @ nl, nl]"
  by (simp add: bare_state_def eval_defs)

lemma accepted_submission:
  "gs \<noteq> JNull \<Longrightarrow> accepted (decoding (\<lambda>s. submission gs (f s))) (post b)"
  by (simp add: accepted_def decoding_def submission_def post_def isset_def)

subsection \<open>Order and shape of the sections\<close>







lemma feed_free_append [simp]: "feed_free (a @ b) = (feed_free a \<and> feed_free b)"
  by (auto simp: feed_free_def)


lemma feed_free_Nil [simp]: "feed_free []"
  by (simp add: feed_free_def)















subsection \<open>The empty game state\<close>

text \<open>
  Claim C3 says that a snapshot with an empty checkers list, no dice and no cube gives
  exactly two lines. A snapshot holds its dice in the field \<^verbatim>\<open>dice\<close>, and with no die
  that field is \<^verbatim>\<open>{red: null, white: null}\<close>, as the detector sends it:
  \<^verbatim>\<open>isset($gameState['dice'])\<close> holds for it, and the header of the dice section is a
  third line. So it is for \<open>no_dice_state\<close>, which has no cube field, and for
  \<open>empty_state\<close>, which has the cube the detector sends when it finds none.
\<close>

theorem empty_snapshot_counterexample:
  "log_entries example_php ''2025-10-26 15:22:41'' no_dice_state =
     Inr [''[2025-10-26 15:22:41] === CHECKERS === (0 found)'' @ nl,
          ''[2025-10-26 15:22:41] === DICE ==='' @ nl,
          nl] \<and>
   log_entries example_php ''2025-10-26 15:22:41'' no_dice_state \<noteq>
     Inr [''[2025-10-26 15:22:41] === CHECKERS === (0 found)'' @ nl, nl] \<and>
   log_entries example_php ''2025-10-26 15:22:41'' empty_state =
     Inr [''[2025-10-26 15:22:41] === CHECKERS === (0 found)'' @ nl,
          ''[2025-10-26 15:22:41] === DICE ==='' @ nl,
          nl]"
  by (simp add: no_dice_state_def empty_state_def example_php_def eval_defs)

text \<open>
  Claim C3, amended. A game state whose \<^verbatim>\<open>checkers\<close> is an empty array, whose
  \<^verbatim>\<open>dice\<close> field is missing or null and whose cube is missing or has no \<^verbatim>\<open>x\<close> gives
  exactly two lines: the checkers header with \<^verbatim>\<open>(0 found)\<close> and the empty line.
\<close>

theorem empty_snapshot_two_lines:
  assumes "is_array (lookup gs ''checkers'')"
    and "elements (lookup gs ''checkers'') = []"
    and "\<not> isset gs ''dice''"
    and "\<not> (isset gs ''cube'' \<and> isset (lookup gs ''cube'') ''x'')"
  shows "log_entries rt ts gs = Inr [''['' @ ts @ ''] === CHECKERS === (0 found)'' @ nl, nl]"
proof -
  from assms(3) have dice: "lookup gs ''dice'' = JNull"
    by (simp add: isset_def)
  from assms(4) have cube: "\<not> isset (lookup gs ''cube'') ''x''"
    using isset_lookup_isset by blast
  have "snapshot_ok rt gs"
    by (simp add: snapshot_ok_def assms(2) dice cube die_ok_def)
  from log_entries_ok [OF this, of ts] show ?thesis
    by (simp add: checkers_part_def dice_part_def cube_part_def assms cube int_str_def
        digits.simps)
qed

theorem empty_snapshot_two_lines_witness:
  "is_array (lookup bare_state ''checkers'') \<and>
   elements (lookup bare_state ''checkers'') = [] \<and>
   \<not> isset bare_state ''dice'' \<and>
   \<not> isset bare_state ''cube'' \<and>
   log_entries example_php ''2025-10-26 15:22:41'' bare_state =
     Inr [''[2025-10-26 15:22:41] === CHECKERS === (0 found)'' @ nl, nl]"
proof -
  have h: "is_array (lookup bare_state ''checkers'')"
    "elements (lookup bare_state ''checkers'') = []"
    "\<not> isset bare_state ''dice''"
    "\<not> isset bare_state ''cube''"
    by (simp_all add: bare_state_def isset_def)
  then have "\<not> (isset bare_state ''cube'' \<and> isset (lookup bare_state ''cube'') ''x'')"
    by simp
  from empty_snapshot_two_lines [OF h(1) h(2) h(3) this, of example_php "''2025-10-26 15:22:41''"] h
  show ?thesis by simp
qed

subsection \<open>Rounded coordinates\<close>


lemma round_helper_of_int [simp]: "round_helper (of_int i) = i"
proof -
  have "\<lfloor>real_of_int i + 1 / 2\<rfloor> = i" and "\<lceil>real_of_int i - 1 / 2\<rceil> = i"
    by linarith+
  then show ?thesis by (simp add: round_helper_def)
qed












subsection \<open>What the lines depend on\<close>

text \<open>
  Claim C5 says that the lines are a function of the snapshot and of the submitted
  timestamp. The script only tests that a timestamp was submitted; the timestamp of the
  lines is the server's clock, \<^verbatim>\<open>date('Y-m-d H:i:s')\<close>. The same request, handled one
  second later, gives other lines.
\<close>

theorem submitted_timestamp_counterexample:
  "save_move (decoding (\<lambda>s. submission bare_state ''2025-10-26T15:22:41.000Z''))
     \<lparr>clock = ''2025-10-26 15:22:41'', writable = True\<rparr> (post ''body'') [] =
     (Responded \<lparr>status = 200, body = Success 2 ''2025-10-26 15:22:41''\<rparr>,
      ''[2025-10-26 15:22:41] === CHECKERS === (0 found)'' @ nl @ nl) \<and>
   save_move (decoding (\<lambda>s. submission bare_state ''2025-10-26T15:22:41.000Z''))
     \<lparr>clock = ''2025-10-26 15:22:42'', writable = True\<rparr> (post ''body'') [] =
     (Responded \<lparr>status = 200, body = Success 2 ''2025-10-26 15:22:42''\<rparr>,
      ''[2025-10-26 15:22:42] === CHECKERS === (0 found)'' @ nl @ nl) \<and>
   save_move (decoding (\<lambda>s. submission bare_state ''2025-10-26T15:22:41.000Z''))
     \<lparr>clock = ''2025-10-26 15:22:41'', writable = True\<rparr> (post ''body'') [] \<noteq>
   save_move (decoding (\<lambda>s. submission bare_state ''2025-10-26T15:22:41.000Z''))
     \<lparr>clock = ''2025-10-26 15:22:42'', writable = True\<rparr> (post ''body'') []"
proof -
  have gs: "lookup (submission bare_state t) ''gameState'' = bare_state" for t
    by (simp add: submission_def)
  have a: "accepted (decoding (\<lambda>s. submission bare_state ''2025-10-26T15:22:41.000Z'')) (post ''body'')"
    by (rule accepted_submission) (simp add: bare_state_def)
  show ?thesis
    unfolding save_move_accepted [OF a]
    by (simp add: decoding_def post_def gs bare_entries)
qed

text \<open>
  Claim C5, amended. The outcome of a request and the lines it appends are a function of
  the game state and of the server's side (its clock and whether the write goes through):
  two accepted requests with the same game state get the same response and leave the same
  file, whatever timestamps they submit.
\<close>

theorem lines_from_clock_and_state:
  assumes "accepted rt r1" and "accepted rt r2"
    and "lookup (json_decode rt (input r1)) ''gameState'' =
         lookup (json_decode rt (input r2)) ''gameState''"
  shows "save_move rt srv r1 moves = save_move rt srv r2 moves"
proof -
  let ?respond = "\<lambda>entries. case entries of
        Inl e \<Rightarrow> (Uncaught e, moves)
      | Inr es \<Rightarrow>
          if es \<noteq> [] \<and> writable srv
          then (Responded \<lparr>status = 200, body = Success (length es) (clock srv)\<rparr>,
                moves @ concat es)
          else (Responded \<lparr>status = 500,
                  body = ServerError ''Server error'' ''Failed to write to log file''\<rparr>, moves)"
  have "save_move rt srv r1 moves =
          ?respond (log_entries rt (clock srv) (lookup (json_decode rt (input r1)) ''gameState''))"
    by (rule save_move_accepted [OF assms(1)])
  also have "\<dots> =
          ?respond (log_entries rt (clock srv) (lookup (json_decode rt (input r2)) ''gameState''))"
    by (simp only: assms(3))
  also have "\<dots> = save_move rt srv r2 moves"
    by (rule save_move_accepted [OF assms(2), symmetric])
  finally show ?thesis .
qed

text \<open>Two requests with the same game state and different submitted timestamps.\<close>

theorem lines_from_clock_and_state_witness:
  "accepted (decoding (submission bare_state)) (post ''2025-10-26T15:22:41.000Z'') \<and>
   accepted (decoding (submission bare_state)) (post ''1999-12-31T23:59:59.000Z'') \<and>
   lookup (json_decode (decoding (submission bare_state)) (input (post ''2025-10-26T15:22:41.000Z'')))
     ''timestamp'' \<noteq>
   lookup (json_decode (decoding (submission bare_state)) (input (post ''1999-12-31T23:59:59.000Z'')))
     ''timestamp'' \<and>
   save_move (decoding (submission bare_state))
     \<lparr>clock = ''2025-10-26 15:22:41'', writable = True\<rparr> (post ''2025-10-26T15:22:41.000Z'') [] =
   save_move (decoding (submission bare_state))
     \<lparr>clock = ''2025-10-26 15:22:41'', writable = True\<rparr> (post ''1999-12-31T23:59:59.000Z'') []"
proof -
  have ne: "bare_state \<noteq> JNull" by (simp add: bare_state_def)
  have a1: "accepted (decoding (submission bare_state)) (post ''2025-10-26T15:22:41.000Z'')"
    using accepted_submission [OF ne, of "\<lambda>s. s"] by simp
  have a2: "accepted (decoding (submission bare_state)) (post ''1999-12-31T23:59:59.000Z'')"
    using accepted_submission [OF ne, of "\<lambda>s. s"] by simp
  have same: "lookup (json_decode (decoding (submission bare_state))
                  (input (post ''2025-10-26T15:22:41.000Z''))) ''gameState'' =
              lookup (json_decode (decoding (submission bare_state))
                  (input (post ''1999-12-31T23:59:59.000Z''))) ''gameState''"
    by (simp add: decoding_def submission_def)
  have diff: "lookup (json_decode (decoding (submission bare_state))
                  (input (post ''2025-10-26T15:22:41.000Z''))) ''timestamp'' \<noteq>
              lookup (json_decode (decoding (submission bare_state))
                  (input (post ''1999-12-31T23:59:59.000Z''))) ''timestamp''"
    by (simp add: decoding_def submission_def post_def)
  from lines_from_clock_and_state [OF a1 a2 same] a1 a2 diff show ?thesis by simp
qed

subsection \<open>Rejected submissions\<close>

text \<open>
  Claim C6. A submission whose body is not valid JSON, or whose \<^verbatim>\<open>gameState\<close> or
  \<^verbatim>\<open>timestamp\<close> is missing (or null), is answered with a status from 400 to 499, and
  the log file stays as it was.
\<close>

theorem malformed_rejected:
  assumes "json_decode rt (input req) = JNull \<or>
           \<not> isset (json_decode rt (input req)) ''gameState'' \<or>
           \<not> isset (json_decode rt (input req)) ''timestamp''"
  shows "\<exists>r. save_move rt srv req moves = (Responded r, moves) \<and>
             400 \<le> status r \<and> status r < 500"
proof (cases "request_method req = ''POST''")
  case False
  then show ?thesis by (simp add: save_move_def)
next
  case True
  from assms have "\<not> isset (json_decode rt (input req)) ''gameState'' \<or>
                   \<not> isset (json_decode rt (input req)) ''timestamp''"
    by (auto simp: isset_def)
  with True show ?thesis by (auto simp: save_move_def Let_def)
qed

theorem malformed_rejected_witness:
  "json_decode example_php (input (post ''{not json'')) = JNull \<and>
   save_move example_php \<lparr>clock = ''2025-10-26 15:22:41'', writable = True\<rparr>
     (post ''{not json'') ''earlier lines'' =
     (Responded \<lparr>status = 400, body = ErrorOnly ''Invalid data format''\<rparr>, ''earlier lines'') \<and>
   \<not> isset (json_decode (decoding (\<lambda>s. JObj [(''gameState'', bare_state)])) (input (post ''no timestamp'')))
       ''timestamp'' \<and>
   save_move (decoding (\<lambda>s. JObj [(''gameState'', bare_state)]))
     \<lparr>clock = ''2025-10-26 15:22:41'', writable = True\<rparr>
     (post ''no timestamp'') ''earlier lines'' =
     (Responded \<lparr>status = 400, body = ErrorOnly ''Invalid data format''\<rparr>, ''earlier lines'')"
proof -
  let ?srv = "\<lparr>clock = ''2025-10-26 15:22:41'', writable = True\<rparr>"
  let ?rt = "decoding (\<lambda>s. JObj [(''gameState'', bare_state)])"
  have n: "json_decode example_php (input (post ''{not json'')) = JNull"
    by (simp add: example_php_def)
  then have "json_decode example_php (input (post ''{not json'')) = JNull \<or>
           \<not> isset (json_decode example_php (input (post ''{not json''))) ''gameState'' \<or>
           \<not> isset (json_decode example_php (input (post ''{not json''))) ''timestamp''"
    by simp
  from malformed_rejected [OF this, of ?srv "''earlier lines''"]
  obtain r where "save_move example_php ?srv (post ''{not json'') ''earlier lines'' =
      (Responded r, ''earlier lines'')"
    by blast
  moreover have "fst (save_move example_php ?srv (post ''{not json'') ''earlier lines'') =
     Responded \<lparr>status = 400, body = ErrorOnly ''Invalid data format''\<rparr>"
    by (simp add: save_move_def example_php_def post_def)
  ultimately have first: "save_move example_php ?srv (post ''{not json'') ''earlier lines'' =
     (Responded \<lparr>status = 400, body = ErrorOnly ''Invalid data format''\<rparr>, ''earlier lines'')"
    by simp
  have t: "\<not> isset (json_decode ?rt (input (post ''no timestamp''))) ''timestamp''"
    by (simp add: decoding_def isset_def)
  then have "json_decode ?rt (input (post ''no timestamp'')) = JNull \<or>
           \<not> isset (json_decode ?rt (input (post ''no timestamp''))) ''gameState'' \<or>
           \<not> isset (json_decode ?rt (input (post ''no timestamp''))) ''timestamp''"
    by simp
  from malformed_rejected [OF this, of ?srv "''earlier lines''"]
  obtain r' where "save_move ?rt ?srv (post ''no timestamp'') ''earlier lines'' =
      (Responded r', ''earlier lines'')"
    by blast
  moreover have "fst (save_move ?rt ?srv (post ''no timestamp'') ''earlier lines'') =
     Responded \<lparr>status = 400, body = ErrorOnly ''Invalid data format''\<rparr>"
    by (simp add: save_move_def decoding_def post_def isset_def)
  ultimately have second: "save_move ?rt ?srv (post ''no timestamp'') ''earlier lines'' =
     (Responded \<lparr>status = 400, body = ErrorOnly ''Invalid data format''\<rparr>, ''earlier lines'')"
    by simp
  from n first t second show ?thesis by simp
qed

subsection \<open>Missing pip count and cube value\<close>

text \<open>
  Claim C7. When a die that is present has no pip count, or a cube that is present has no
  value, its line shows \<^verbatim>\<open>?\<close> in that place, and the request succeeds: for an accepted
  submission whose coordinates can be rounded and a log file that can be written, the
  response is the success response and the lines are appended. Whether the coordinates can
  be rounded does not depend on the pip count or on the cube value, and nothing else makes
  an accepted request fail before the write (\<open>save_move_uncaught\<close>).
\<close>

theorem absent_pips_or_value_placeholder:
  assumes "accepted rt req" and "snapshot_ok rt (game_state rt req)" and "writable srv"
  shows "\<exists>es.
     save_move rt srv req moves =
       (Responded \<lparr>status = 200, body = Success (length es) (clock srv)\<rparr>, moves @ concat es) \<and>
     (isset (lookup (game_state rt req) ''dice'') ''red'' \<and>
      \<not> isset (lookup (lookup (game_state rt req) ''dice'') ''red'') ''pips'' \<longrightarrow>
        ''  - Red Die: ? pips at (x:''
          @ rounded_text rt (lookup (lookup (lookup (game_state rt req) ''dice'') ''red'') ''x'')
          @ '', y:''
          @ rounded_text rt (lookup (lookup (lookup (game_state rt req) ''dice'') ''red'') ''y'')
          @ '')'' @ nl \<in> set es) \<and>
     (isset (lookup (game_state rt req) ''dice'') ''white'' \<and>
      \<not> isset (lookup (lookup (game_state rt req) ''dice'') ''white'') ''pips'' \<longrightarrow>
        ''  - White Die: ? pips at (x:''
          @ rounded_text rt (lookup (lookup (lookup (game_state rt req) ''dice'') ''white'') ''x'')
          @ '', y:''
          @ rounded_text rt (lookup (lookup (lookup (game_state rt req) ''dice'') ''white'') ''y'')
          @ '')'' @ nl \<in> set es) \<and>
     (isset (lookup (game_state rt req) ''cube'') ''x'' \<and>
      \<not> isset (lookup (game_state rt req) ''cube'') ''value'' \<longrightarrow>
        ''  - Cube at (x:''
          @ rounded_text rt (lookup (lookup (game_state rt req) ''cube'') ''x'')
          @ '', y:''
          @ rounded_text rt (lookup (lookup (game_state rt req) ''cube'') ''y'')
          @ ''), value: ?'' @ nl \<in> set es)"
proof -
  let ?gs = "game_state rt req"
  let ?es = "checkers_part rt (clock srv) ?gs @ dice_part rt (clock srv) ?gs
             @ cube_part rt (clock srv) ?gs @ [nl]"
  have "save_move rt srv req moves =
       (Responded \<lparr>status = 200, body = Success (length ?es) (clock srv)\<rparr>, moves @ concat ?es)"
    using save_move_ok [OF assms(1,2), of srv moves] assms(3) by simp
  moreover have "isset (lookup ?gs ''dice'') ''red'' \<and>
      \<not> isset (lookup (lookup ?gs ''dice'') ''red'') ''pips'' \<longrightarrow>
        ''  - Red Die: ? pips at (x:''
          @ rounded_text rt (lookup (lookup (lookup ?gs ''dice'') ''red'') ''x'')
          @ '', y:''
          @ rounded_text rt (lookup (lookup (lookup ?gs ''dice'') ''red'') ''y'')
          @ '')'' @ nl \<in> set ?es"
  proof
    assume a: "isset (lookup ?gs ''dice'') ''red'' \<and>
      \<not> isset (lookup (lookup ?gs ''dice'') ''red'') ''pips''"
    then have "isset ?gs ''dice''" using isset_lookup_isset by blast
    with a show "''  - Red Die: ? pips at (x:''
          @ rounded_text rt (lookup (lookup (lookup ?gs ''dice'') ''red'') ''x'')
          @ '', y:''
          @ rounded_text rt (lookup (lookup (lookup ?gs ''dice'') ''red'') ''y'')
          @ '')'' @ nl \<in> set ?es"
      by (simp add: dice_part_def die_text_def)
  qed
  moreover have "isset (lookup ?gs ''dice'') ''white'' \<and>
      \<not> isset (lookup (lookup ?gs ''dice'') ''white'') ''pips'' \<longrightarrow>
        ''  - White Die: ? pips at (x:''
          @ rounded_text rt (lookup (lookup (lookup ?gs ''dice'') ''white'') ''x'')
          @ '', y:''
          @ rounded_text rt (lookup (lookup (lookup ?gs ''dice'') ''white'') ''y'')
          @ '')'' @ nl \<in> set ?es"
  proof
    assume a: "isset (lookup ?gs ''dice'') ''white'' \<and>
      \<not> isset (lookup (lookup ?gs ''dice'') ''white'') ''pips''"
    then have "isset ?gs ''dice''" using isset_lookup_isset by blast
    with a show "''  - White Die: ? pips at (x:''
          @ rounded_text rt (lookup (lookup (lookup ?gs ''dice'') ''white'') ''x'')
          @ '', y:''
          @ rounded_text rt (lookup (lookup (lookup ?gs ''dice'') ''white'') ''y'')
          @ '')'' @ nl \<in> set ?es"
      by (simp add: dice_part_def die_text_def)
  qed
  moreover have "isset (lookup ?gs ''cube'') ''x'' \<and>
      \<not> isset (lookup ?gs ''cube'') ''value'' \<longrightarrow>
        ''  - Cube at (x:''
          @ rounded_text rt (lookup (lookup ?gs ''cube'') ''x'')
          @ '', y:''
          @ rounded_text rt (lookup (lookup ?gs ''cube'') ''y'')
          @ ''), value: ?'' @ nl \<in> set ?es"
    by (simp add: cube_part_def)
  ultimately show ?thesis by blast
qed

text \<open>A red die without pip count and a cube without value.\<close>

theorem absent_pips_or_value_placeholder_witness:
  "accepted (decoding (submission no_pips_state)) (post ''2025-10-26T15:22:41.000Z'') \<and>
   snapshot_ok (decoding (submission no_pips_state))
     (game_state (decoding (submission no_pips_state)) (post ''2025-10-26T15:22:41.000Z'')) \<and>
   (\<exists>es. save_move (decoding (submission no_pips_state))
           \<lparr>clock = ''2025-10-26 15:22:41'', writable = True\<rparr>
           (post ''2025-10-26T15:22:41.000Z'') [] =
           (Responded \<lparr>status = 200, body = Success (length es) ''2025-10-26 15:22:41''\<rparr>,
            concat es) \<and>
         ''  - Red Die: ? pips at (x:150, y:200)'' @ nl \<in> set es \<and>
         ''  - Cube at (x:50, y:300), value: ?'' @ nl \<in> set es)"
proof -
  let ?rt = "decoding (submission no_pips_state)"
  let ?req = "post ''2025-10-26T15:22:41.000Z''"
  have ne: "no_pips_state \<noteq> JNull" by (simp add: no_pips_state_def)
  have a: "accepted ?rt ?req"
    using accepted_submission [OF ne, of "\<lambda>s. s"] by simp
  have gs: "game_state ?rt ?req = no_pips_state"
    by (simp add: game_state_def decoding_def submission_def)
  have ok: "snapshot_ok ?rt (game_state ?rt ?req)"
    unfolding gs
    by (simp add: snapshot_ok_def no_pips_state_def checker_ok_def die_ok_def isset_def)
  have w: "writable \<lparr>clock = ''2025-10-26 15:22:41'', writable = True\<rparr>" by simp
  have set: "isset (lookup no_pips_state ''dice'') ''red''"
    "\<not> isset (lookup (lookup no_pips_state ''dice'') ''red'') ''pips''"
    "isset (lookup no_pips_state ''cube'') ''x''"
    "\<not> isset (lookup no_pips_state ''cube'') ''value''"
    by (simp_all add: no_pips_state_def isset_def)
  have printed: "rounded_text ?rt (lookup (lookup (lookup no_pips_state ''dice'') ''red'') ''x'') = ''150''"
    "rounded_text ?rt (lookup (lookup (lookup no_pips_state ''dice'') ''red'') ''y'') = ''200''"
    "rounded_text ?rt (lookup (lookup no_pips_state ''cube'') ''x'') = ''50''"
    "rounded_text ?rt (lookup (lookup no_pips_state ''cube'') ''y'') = ''300''"
    by (simp_all add: no_pips_state_def rounded_text_def int_str_def digits.simps)
  from absent_pips_or_value_placeholder [OF a ok w, of "[]"]
  have "\<exists>es. save_move ?rt \<lparr>clock = ''2025-10-26 15:22:41'', writable = True\<rparr> ?req [] =
           (Responded \<lparr>status = 200, body = Success (length es) ''2025-10-26 15:22:41''\<rparr>,
            concat es) \<and>
         ''  - Red Die: ? pips at (x:150, y:200)'' @ nl \<in> set es \<and>
         ''  - Cube at (x:50, y:300), value: ?'' @ nl \<in> set es"
    unfolding gs using set printed by auto
  with a ok show ?thesis by simp
qed

subsection \<open>The output is never empty\<close>

lemma checkers_header_detail: "prefix ''  '' l \<Longrightarrow> \<not> checkers_header ts l"
  by (auto simp: checkers_header_def prefix_def)

lemma dice_part_no_header: "list_all (\<lambda>l. \<not> checkers_header ts l) (dice_part rt ts gs)"
  by (simp add: dice_part_def checkers_header_def die_text_def)

lemma cube_part_no_header: "list_all (\<lambda>l. \<not> checkers_header ts l) (cube_part rt ts gs)"
  by (simp add: cube_part_def checkers_header_def)

lemma nl_no_header: "\<not> checkers_header ts nl"
  by (simp add: checkers_header_def nl_def prefix_def)

text \<open>
  Claim C9. For every accepted submission whose coordinates can be rounded, the lines are
  never empty and the last one is the empty line. So the write is always attempted: the
  response is the success response with a count of at least 1 and the lines appended, or,
  when the write fails, the server error. When the game state has no \<^verbatim>\<open>checkers\<close> key,
  no line is a checkers header, and the empty line is written all the same; when
  \<^verbatim>\<open>checkers\<close> is an array, even an empty one, the first line is the checkers header.
\<close>

theorem output_never_empty:
  assumes "accepted rt req" and "snapshot_ok rt (game_state rt req)"
  shows "\<exists>es.
     log_entries rt (clock srv) (game_state rt req) = Inr es \<and>
     es \<noteq> [] \<and> last es = nl \<and> 1 \<le> length es \<and>
     save_move rt srv req moves =
       (if writable srv
        then (Responded \<lparr>status = 200, body = Success (length es) (clock srv)\<rparr>,
              moves @ concat es)
        else (Responded \<lparr>status = 500,
                body = ServerError ''Server error'' ''Failed to write to log file''\<rparr>, moves)) \<and>
     (\<not> isset (game_state rt req) ''checkers'' \<longrightarrow>
        list_all (\<lambda>l. \<not> checkers_header (clock srv) l) es) \<and>
     (is_array (lookup (game_state rt req) ''checkers'') \<longrightarrow> checkers_header (clock srv) (hd es))"
proof -
  let ?gs = "game_state rt req"
  let ?es = "checkers_part rt (clock srv) ?gs @ dice_part rt (clock srv) ?gs
             @ cube_part rt (clock srv) ?gs @ [nl]"
  have 1: "log_entries rt (clock srv) ?gs = Inr ?es"
    using assms(2) by (rule log_entries_ok)
  have 2: "?es \<noteq> []" "last ?es = nl" "1 \<le> length ?es"
    by simp_all
  have 3: "save_move rt srv req moves =
       (if writable srv
        then (Responded \<lparr>status = 200, body = Success (length ?es) (clock srv)\<rparr>,
              moves @ concat ?es)
        else (Responded \<lparr>status = 500,
                body = ServerError ''Server error'' ''Failed to write to log file''\<rparr>, moves))"
    by (rule save_move_ok [OF assms])
  have 4: "\<not> isset ?gs ''checkers'' \<longrightarrow> list_all (\<lambda>l. \<not> checkers_header (clock srv) l) ?es"
  proof
    assume "\<not> isset ?gs ''checkers''"
    then have "\<not> is_array (lookup ?gs ''checkers'')"
      using is_array_isset by blast
    then have "checkers_part rt (clock srv) ?gs = []"
      by (simp add: checkers_part_def)
    then show "list_all (\<lambda>l. \<not> checkers_header (clock srv) l) ?es"
      by (simp add: dice_part_no_header cube_part_no_header nl_no_header)
  qed
  have 5: "is_array (lookup ?gs ''checkers'') \<longrightarrow> checkers_header (clock srv) (hd ?es)"
    by (simp add: checkers_part_def checkers_header_def)
  from 1 2 3 4 5 show ?thesis by blast
qed

text \<open>A game state without a \<^verbatim>\<open>checkers\<close> key.\<close>

theorem output_never_empty_witness:
  "accepted (decoding (submission no_checkers_state)) (post ''2025-10-26T15:22:41.000Z'') \<and>
   snapshot_ok (decoding (submission no_checkers_state))
     (game_state (decoding (submission no_checkers_state)) (post ''2025-10-26T15:22:41.000Z'')) \<and>
   \<not> isset (game_state (decoding (submission no_checkers_state))
              (post ''2025-10-26T15:22:41.000Z'')) ''checkers'' \<and>
   log_entries (decoding (submission no_checkers_state)) ''2025-10-26 15:22:41''
     (game_state (decoding (submission no_checkers_state)) (post ''2025-10-26T15:22:41.000Z'')) =
     Inr [''[2025-10-26 15:22:41] === DICE ==='' @ nl, nl] \<and>
   save_move (decoding (submission no_checkers_state))
     \<lparr>clock = ''2025-10-26 15:22:41'', writable = True\<rparr>
     (post ''2025-10-26T15:22:41.000Z'') ''earlier'' =
     (Responded \<lparr>status = 200, body = Success 2 ''2025-10-26 15:22:41''\<rparr>,
      ''earlier'' @ ''[2025-10-26 15:22:41] === DICE ==='' @ nl @ nl)"
proof -
  let ?rt = "decoding (submission no_checkers_state)"
  let ?req = "post ''2025-10-26T15:22:41.000Z''"
  let ?srv = "\<lparr>clock = ''2025-10-26 15:22:41'', writable = True\<rparr>"
  have ne: "no_checkers_state \<noteq> JNull" by (simp add: no_checkers_state_def)
  have a: "accepted ?rt ?req"
    using accepted_submission [OF ne, of "\<lambda>s. s"] by simp
  have gs: "game_state ?rt ?req = no_checkers_state"
    by (simp add: game_state_def decoding_def submission_def)
  have ok: "snapshot_ok ?rt (game_state ?rt ?req)"
    unfolding gs
    by (simp add: snapshot_ok_def no_checkers_state_def checker_ok_def die_ok_def isset_def)
  have nokey: "\<not> isset (game_state ?rt ?req) ''checkers''"
    unfolding gs by (simp add: no_checkers_state_def isset_def)
  have lines: "log_entries ?rt ''2025-10-26 15:22:41'' no_checkers_state =
      Inr [''[2025-10-26 15:22:41] === DICE ==='' @ nl, nl]"
    by (simp add: no_checkers_state_def eval_defs)
  from output_never_empty [OF a ok, of ?srv "''earlier''"]
  obtain es where es: "log_entries ?rt (clock ?srv) (game_state ?rt ?req) = Inr es"
    and sm: "save_move ?rt ?srv ?req ''earlier'' =
       (if writable ?srv
        then (Responded \<lparr>status = 200, body = Success (length es) (clock ?srv)\<rparr>,
              ''earlier'' @ concat es)
        else (Responded \<lparr>status = 500,
                body = ServerError ''Server error'' ''Failed to write to log file''\<rparr>, ''earlier''))"
    by blast
  from es have "Inr es = log_entries ?rt ''2025-10-26 15:22:41'' no_checkers_state"
    by (simp add: gs)
  then have "es = [''[2025-10-26 15:22:41] === DICE ==='' @ nl, nl]"
    unfolding lines by simp
  with sm have "save_move ?rt ?srv ?req ''earlier'' =
     (Responded \<lparr>status = 200, body = Success 2 ''2025-10-26 15:22:41''\<rparr>,
      ''earlier'' @ ''[2025-10-26 15:22:41] === DICE ==='' @ nl @ nl)"
    by simp
  with a ok nokey lines gs show ?thesis by simp
qed

end
